theory Spec2Isabelle
  imports Main "HOL-Library.Word" "HOL-Library.Sublist" "HOL-Library.Char_ord"
    "HOL-Library.List_Lexorder"
begin

section \<open>The load-balancing handler of go-chassis\<close>

text \<open>
  A shallow embedding of \<^verbatim>\<open>core/handler/loadbalance_handler.go\<close>: endpoint
  selection (\<^verbatim>\<open>getEndpoint\<close>), the session token (\<^verbatim>\<open>getSessionID\<close>) and the two
  ways of handling a call (\<^verbatim>\<open>handleWithNoRetry\<close>, \<^verbatim>\<open>handleWithRetry\<close>).

  Go's \<^verbatim>\<open>int\<close> is the 64-bit word \<open>go_int\<close>, as on the 64-bit platforms: \<open>+\<close>
  wraps around, and \<^verbatim>\<open><\<close> compares the two's-complement values (\<open>sint\<close>). A Go map is an association list with distinct keys; the order of the list
  stands for the order in which one \<^verbatim>\<open>range\<close> over the map yields its keys, which Go
  leaves open.
\<close>

subsection \<open>Data\<close>

type_synonym go_int = "64 word"

type_synonym go_map = "(string \<times> string) list"

text \<open>
  Error values: \<^verbatim>\<open>errors.New(text)\<close>, \<^verbatim>\<open>loadbalancer.LBError{Message: text}\<close> and
  \<^verbatim>\<open>backoff.Permanent(err)\<close>.
\<close>

datatype error =
    ErrorString string
  | LBError string
  | PermanentError error

text \<open>\<^verbatim>\<open>invocation.Response\<close>; \<^verbatim>\<open>&invocation.Response{}\<close> is \<open>empty_Response\<close>.\<close>

record response =
  Status :: go_int
  Result :: string
  Err :: "error option"

definition empty_Response :: response where
  "empty_Response = \<lparr>Status = 0, Result = [], Err = None\<rparr>"

text \<open>
  \<^verbatim>\<open>i.Args\<close> is an \<^verbatim>\<open>interface{}\<close>; the handler only asks whether it is a
  \<^verbatim>\<open>*rest.Request\<close>, of which it reads the cookies.
\<close>

datatype args =
    Rest_Request go_map
  | Other_Args

text \<open>
  The fields of \<^verbatim>\<open>invocation.Invocation\<close> that the handler reads or writes.
  \<open>Ctx\<close> is the metadata that the call's context carries.
\<close>

record invocation =
  Endpoint :: string
  Protocol :: string
  SourceServiceID :: string
  SourceMicroService :: string
  MicroServiceName :: string
  Strategy :: string
  Filters :: "string list"
  RouteTags :: go_map
  Args :: args
  Ctx :: go_map

text \<open>The instance that a strategy picks (\<^verbatim>\<open>registry.MicroServiceInstance\<close>).\<close>

record microServiceInstance =
  InstanceID :: string
  DefaultProtocol :: string
  EndpointsMap :: go_map

text \<open>
  What one \<^verbatim>\<open>chain.Next(i, f)\<close> does with its callback \<^verbatim>\<open>f\<close>: it does not call
  it, or it calls it once, with \<^verbatim>\<open>nil\<close> or with a response.
\<close>

datatype chain_result =
    NotCalled
  | Called "response option"

text \<open>The three ways out of \<^verbatim>\<open>getEndpoint\<close>: \<^verbatim>\<open>(ep, nil)\<close>, \<^verbatim>\<open>("", err)\<close>, a panic.\<close>

datatype selection =
    Selected string
  | Failed error
  | Panicked

text \<open>How a handler function is left: it returns, or a panic unwinds it.\<close>

datatype ending =
    Returned
  | Unwound

text \<open>How the \<^verbatim>\<open>for\<close> statement of \<^verbatim>\<open>handleWithRetry\<close> is left.\<close>

datatype loop_exit =
    Fallthrough
  | Return_in_loop
  | Panic_in_loop

text \<open>
  The calls that leave the handler, in the order in which they happen:
  \<^item> \<open>E_GetStrategyPlugin name\<close>: \<^verbatim>\<open>loadbalancer.GetStrategyPlugin(name)\<close>;
  \<^item> \<open>E_Errorf err e\<close>: \<^verbatim>\<open>lager.Logger.Errorf(err, e.Error())\<close> for the \<open>LBError\<close> \<open>e\<close>;
  \<^item> \<open>E_BuildStrategy sourceServiceID microServiceName protocol sessionID filters routeTags\<close>:
    the call of \<^verbatim>\<open>loadbalancer.BuildStrategy\<close> with these arguments;
  \<^item> \<open>E_Pick\<close>: \<^verbatim>\<open>s.Pick()\<close>;
  \<^item> \<open>E_getEndpoint r\<close>: \<^verbatim>\<open>getEndpoint\<close> is left with \<open>r\<close>;
  \<^item> \<open>E_Next handlerIndex i r\<close>: \<^verbatim>\<open>chain.Next(i, f)\<close> with \<^verbatim>\<open>chain.HandlerIndex\<close> and
    \<^verbatim>\<open>*i\<close> as they are at the call, and what the chain did with \<^verbatim>\<open>f\<close>;
  \<^item> \<open>E_cb r\<close>: the callback \<^verbatim>\<open>cb\<close> given to the handler is called with \<open>r\<close>;
  \<^item> \<open>E_Sleep d\<close>: \<^verbatim>\<open>backoff.Retry\<close> waits for \<open>d\<close>.
\<close>

datatype event =
    E_GetStrategyPlugin string
  | E_Errorf "error option" error
  | E_BuildStrategy string string string string "string list" go_map
  | E_Pick
  | E_getEndpoint selection
  | E_Next go_int invocation chain_result
  | E_cb "response option"
  | E_Sleep nat

subsection \<open>The collaborators\<close>

text \<open>
  A \<^verbatim>\<open>loadbalancer.Strategy\<close> is its \<^verbatim>\<open>Pick\<close> method, which reads and changes the
  world outside the handler (the registry, a round-robin counter). Of the error of
  \<^verbatim>\<open>Pick\<close> the handler keeps only the text \<^verbatim>\<open>err.Error()\<close>, which is what \<open>Inl\<close>
  carries here.
\<close>

type_synonym 'w strategy = "'w \<Rightarrow> (string + microServiceInstance) \<times> 'w"

text \<open>
  The packages that the handler calls and that are not part of it. \<open>'w\<close> is the state
  of the world outside the handler.
  \<^item> \<open>GetStrategyPlugin\<close> returns Go's pair \<^verbatim>\<open>(func() Strategy, error)\<close>: each
    component may be \<^verbatim>\<open>nil\<close> (\<open>None\<close>).
  \<^item> \<open>archaius\<close> is the configuration store behind \<^verbatim>\<open>archaius.GetString\<close>.
  \<^item> \<open>BuildStrategy\<close> and \<open>Next\<close> (\<^verbatim>\<open>chain.Next\<close>) act on the world; \<open>Next\<close> also
    gets the chain's cursor and returns the new one.
  \<^item> \<open>GetBackOff\<close> gives the wait before the retry after the \<open>k\<close>-th failure.
  \<^item> \<open>Sprintf\<close> is \<^verbatim>\<open>fmt.Sprintf\<close> with one argument, a map.
\<close>

record 'w env =
  RetryEnabled :: "string \<Rightarrow> string \<Rightarrow> bool"
  GetRetryOnSame :: "string \<Rightarrow> string \<Rightarrow> go_int"
  GetRetryOnNext :: "string \<Rightarrow> string \<Rightarrow> go_int"
  GetBackOff :: "string \<Rightarrow> string \<Rightarrow> nat \<Rightarrow> nat"
  GetStrategyName :: "string \<Rightarrow> string \<Rightarrow> string"
  GetServerListFilters :: "string list"
  archaius :: "string \<Rightarrow> string option"
  GetStrategyPlugin :: "string \<Rightarrow> (unit \<Rightarrow> 'w strategy) option \<times> error option"
  StrategySessionStickiness :: string
  LBSessionID :: string
  BuildStrategy ::
    "'w \<Rightarrow> string \<Rightarrow> string \<Rightarrow> string \<Rightarrow> string \<Rightarrow> string list \<Rightarrow> 'w strategy \<Rightarrow> go_map
      \<Rightarrow> (error + 'w strategy) \<times> 'w"
  Next :: "'w \<Rightarrow> go_int \<Rightarrow> invocation \<Rightarrow> chain_result \<times> go_int \<times> 'w"
  Sprintf :: "string \<Rightarrow> go_map \<Rightarrow> string"

text \<open>
  Modelled from the spec: \<^verbatim>\<open>archaius.GetString\<close> is not in the source; section 4.3
  has the configured transport preference fall back to the default that is passed.
\<close>

definition GetString :: "'w env \<Rightarrow> string \<Rightarrow> string \<Rightarrow> string" where
  "GetString env key defaultValue =
     (case archaius env key of Some v \<Rightarrow> v | None \<Rightarrow> defaultValue)"

text \<open>
  Modelled from the spec: \<^verbatim>\<open>rest.Request.GetCookie\<close> and
  \<^verbatim>\<open>session.GetContextMetadata\<close> are not in the source; by section 4.2 they read a
  named cookie and a named metadata entry, and a source that yields no value reads as
  the empty string.
\<close>

definition GetCookie :: "go_map \<Rightarrow> string \<Rightarrow> string" where
  "GetCookie req key = (case map_of req key of Some v \<Rightarrow> v | None \<Rightarrow> [])"

definition GetContextMetadata :: "go_map \<Rightarrow> string \<Rightarrow> string" where
  "GetContextMetadata ctx key = (case map_of ctx key of Some v \<Rightarrow> v | None \<Rightarrow> [])"

text \<open>
  \<^verbatim>\<open>strings.Split(s, sep)\<close> of Go's library for a separator of one character: the
  pieces of \<open>s\<close> between the separators, one more than there are separators.
\<close>

fun Split :: "string \<Rightarrow> char \<Rightarrow> string list" where
  "Split [] sep = [[]]"
| "Split (c # cs) sep =
     (if c = sep then [] # Split cs sep
      else (c # hd (Split cs sep)) # tl (Split cs sep))"

subsection \<open>The state\<close>

text \<open>
  What a handler function acts on: the invocation \<^verbatim>\<open>*i\<close>, the cursor
  \<^verbatim>\<open>chain.HandlerIndex\<close>, the world, the calls made so far, and the two variables of
  \<^verbatim>\<open>handleWithRetry\<close> that its closure \<^verbatim>\<open>operation\<close> captures.
\<close>

record 'w state =
  Inv :: invocation
  HandlerIndex :: go_int
  world :: 'w
  trace :: "event list"
  callTimes :: go_int
  invResp :: "response option"

definition emit :: "event \<Rightarrow> 'w state \<Rightarrow> 'w state" where
  "emit e s = s\<lparr>trace := trace s @ [e]\<rparr>"

subsection \<open>\<^verbatim>\<open>getSessionID\<close>\<close>

definition getSessionID :: "'w env \<Rightarrow> invocation \<Rightarrow> string" where
  "getSessionID env i =
     (let metadata =
        (case Args i of
           Rest_Request req \<Rightarrow>
             (let value = GetCookie req (LBSessionID env)
              in if value \<noteq> [] then Some value else None)
         | Other_Args \<Rightarrow>
             (let value = GetContextMetadata (Ctx i) (LBSessionID env)
              in if value \<noteq> [] then
                   (let cookieKey = Split value (CHR ''='')
                    in if length cookieKey > 1 then Some (cookieKey ! 1) else None)
                 else None))
      in case metadata of None \<Rightarrow> [] | Some v \<Rightarrow> v)"

subsection \<open>\<^verbatim>\<open>getEndpoint\<close>\<close>

text \<open>
  Lines 23 to 39: the strategy name is taken from the call, or from the configuration
  when the call has none, in which case it is written back to the call; then the
  plugin is looked up, and a failure of the lookup is logged and nothing else.
\<close>

definition getEndpoint_strategy ::
  "'w env \<Rightarrow> 'w state \<Rightarrow> (unit \<Rightarrow> 'w strategy) option \<times> 'w state" where
  "getEndpoint_strategy env s =
     (if Strategy (Inv s) = [] then
        (let strategyName =
               GetStrategyName env (SourceMicroService (Inv s)) (MicroServiceName (Inv s));
             s1 = s\<lparr>Inv := (Inv s)\<lparr>Strategy := strategyName\<rparr>\<rparr>;
             (strategyFun, err) = GetStrategyPlugin env strategyName;
             s2 = emit (E_GetStrategyPlugin strategyName) s1
         in (strategyFun,
             case err of
               None \<Rightarrow> s2
             | Some e \<Rightarrow>
                 emit (E_Errorf (Some e)
                         (LBError (''Get strategy ['' @ strategyName @ ''] failed.''))) s2))
      else
        (let (strategyFun, err) = GetStrategyPlugin env (Strategy (Inv s));
             s2 = emit (E_GetStrategyPlugin (Strategy (Inv s))) s
         in (strategyFun,
             case err of
               None \<Rightarrow> s2
             | Some e \<Rightarrow>
                 emit (E_Errorf (Some e)
                         (LBError (''Get strategy ['' @ Strategy (Inv s) @ ''] failed.''))) s2)))"

text \<open>
  Lines 61 to 70: an empty protocol is replaced by the configured transport of the
  service, which defaults to the protocol of the instance; if it is still empty, by
  the first key that \<^verbatim>\<open>range\<close> yields.
\<close>

definition getEndpoint_protocol ::
  "'w env \<Rightarrow> microServiceInstance \<Rightarrow> 'w state \<Rightarrow> 'w state" where
  "getEndpoint_protocol env ins s =
     (let s1 =
        (if Protocol (Inv s) = [] then
           s\<lparr>Inv := (Inv s)\<lparr>Protocol :=
                GetString env (''cse.references.'' @ MicroServiceName (Inv s) @ ''.transport'')
                  (DefaultProtocol ins)\<rparr>\<rparr>
         else s)
      in if Protocol (Inv s1) = [] then
           (case EndpointsMap ins of
              [] \<Rightarrow> s1
            | (k, v) # rest \<Rightarrow> s1\<lparr>Inv := (Inv s1)\<lparr>Protocol := k\<rparr>\<rparr>)
         else s1)"

text \<open>
  Lines 40 to 59: the filters default to those of the configuration, the session token
  is computed for the session-stickiness strategy, the strategy is built and picks an
  instance. Calling \<^verbatim>\<open>strategyFun()\<close> when \<^verbatim>\<open>strategyFun\<close> is \<^verbatim>\<open>nil\<close> panics; Go
  evaluates the arguments of \<^verbatim>\<open>BuildStrategy\<close> before it calls it, so \<^verbatim>\<open>BuildStrategy\<close>
  is not called then.
\<close>

datatype picked =
    Instance microServiceInstance
  | No_instance error
  | Nil_strategyFun

definition getEndpoint_pick ::
  "'w env \<Rightarrow> (unit \<Rightarrow> 'w strategy) option \<Rightarrow> 'w state \<Rightarrow> picked \<times> 'w state" where
  "getEndpoint_pick env strategyFun s1 =
     (let s2 = (if length (Filters (Inv s1)) = 0
                then s1\<lparr>Inv := (Inv s1)\<lparr>Filters := GetServerListFilters env\<rparr>\<rparr>
                else s1);
          sessionID = (if Strategy (Inv s2) = StrategySessionStickiness env
                       then getSessionID env (Inv s2) else []);
          i = Inv s2;
          built = E_BuildStrategy (SourceServiceID i) (MicroServiceName i) (Protocol i)
                    sessionID (Filters i) (RouteTags i)
      in case strategyFun of
           None \<Rightarrow> (Nil_strategyFun, s2)
         | Some f \<Rightarrow>
             (case BuildStrategy env (world s2) (SourceServiceID i) (MicroServiceName i)
                     (Protocol i) sessionID (Filters i) (f ()) (RouteTags i) of
                (Inl err, w) \<Rightarrow> (No_instance err, emit built (s2\<lparr>world := w\<rparr>))
              | (Inr strategy, w) \<Rightarrow>
                  (case strategy w of
                     (Inl text, w') \<Rightarrow>
                       (No_instance (LBError text),
                        emit E_Pick (emit built (s2\<lparr>world := w'\<rparr>)))
                   | (Inr ins, w') \<Rightarrow>
                       (Instance ins, emit E_Pick (emit built (s2\<lparr>world := w'\<rparr>))))))"

text \<open>
  Lines 61 to 79: the protocol is resolved and the endpoint of the instance for it is
  looked up.
\<close>

definition getEndpoint_lookup ::
  "'w env \<Rightarrow> microServiceInstance \<Rightarrow> 'w state \<Rightarrow> selection \<times> 'w state" where
  "getEndpoint_lookup env ins s =
     (let s3 = getEndpoint_protocol env ins s
      in case map_of (EndpointsMap ins) (Protocol (Inv s3)) of
           None \<Rightarrow>
             (let errStr =
                    Sprintf env
                      (''No available instance support ['' @ Protocol (Inv s3)
                        @ ''] protocol, msName: '' @ MicroServiceName (Inv s3) @ '' %v'')
                      (EndpointsMap ins);
                  lbErr = LBError errStr
              in (Failed lbErr, emit (E_Errorf None lbErr) s3))
         | Some ep \<Rightarrow> (Selected ep, s3))"

text \<open>The whole function; the last event says how it is left.\<close>

definition getEndpoint :: "'w env \<Rightarrow> 'w state \<Rightarrow> selection \<times> 'w state" where
  "getEndpoint env s =
     (let (strategyFun, s1) = getEndpoint_strategy env s;
          (r, s3) =
            (case getEndpoint_pick env strategyFun s1 of
               (Nil_strategyFun, s2) \<Rightarrow> (Panicked, s2)
             | (No_instance err, s2) \<Rightarrow> (Failed err, s2)
             | (Instance ins, s2) \<Rightarrow> getEndpoint_lookup env ins s2)
      in (r, emit (E_getEndpoint r) s3))"

subsection \<open>\<^verbatim>\<open>fmt.Sprintf\<close>\<close>

text \<open>\<^verbatim>\<open>strings.Join\<close>, which \<^verbatim>\<open>genKey\<close> calls.\<close>

fun Join :: "string list \<Rightarrow> string \<Rightarrow> string" where
  "Join [] sep = []"
| "Join [x] sep = x"
| "Join (x # y # ys) sep = x @ sep @ Join (y # ys) sep"

definition genKey :: "string list \<Rightarrow> string" where
  "genKey s = Join s ''.''"

definition genMsKey :: "string \<Rightarrow> string \<Rightarrow> string \<Rightarrow> string \<Rightarrow> string" where
  "genMsKey prefix' src dest property =
     (if src = [] then genKey [prefix', dest, property]
      else genKey [prefix', src, dest, property])"

text \<open>
  What \<^verbatim>\<open>%v\<close> prints for a \<^verbatim>\<open>map[string]string\<close>: \<^verbatim>\<open>map[k1:v1 k2:v2]\<close>, the keys
  in increasing order.
\<close>

definition Sprint_map :: "go_map \<Rightarrow> string" where
  "Sprint_map m = ''map['' @ Join (map (\<lambda>(k, v). k @ '':'' @ v) (sort_key fst m)) '' '' @ '']''"

text \<open>
  The fragment of \<^verbatim>\<open>fmt.Sprintf\<close> that the handler is meant to use: a format in which
  every \<^verbatim>\<open>%\<close> starts the verb \<^verbatim>\<open>%v\<close>, with as many arguments as verbs; \<open>as\<close> are
  the texts that \<^verbatim>\<open>%v\<close> prints for the arguments. Any other format is outside the
  fragment (\<open>None\<close>): what Go prints for it is not modelled.
\<close>

fun Sprintf_v :: "string \<Rightarrow> string list \<Rightarrow> string option" where
  "Sprintf_v [] [] = Some []"
| "Sprintf_v [] (a # as) = None"
| "Sprintf_v (c # cs) as =
     (if c \<noteq> CHR ''%'' then map_option (Cons c) (Sprintf_v cs as)
      else (case cs of
              [] \<Rightarrow> None
            | d # ds \<Rightarrow>
                if d = CHR ''v'' then
                  (case as of
                     [] \<Rightarrow> None
                   | a # as' \<Rightarrow> map_option (append a) (Sprintf_v ds as'))
                else None))"

text \<open>The \<open>Sprintf\<close> of an environment prints what Go prints on that fragment.\<close>

definition Sprintf_fmt :: "'w env \<Rightarrow> bool" where
  "Sprintf_fmt env =
     (\<forall>format m text. Sprintf_v format [Sprint_map m] = Some text
        \<longrightarrow> Sprintf env format m = text)"

subsection \<open>The handler\<close>

text \<open>
  Modelled from the spec: \<^verbatim>\<open>writeErr\<close> is not in the source; by sections 4.4 and 7
  it reports the error to the caller, as a response that carries it, through the
  callback.
\<close>

definition writeErr :: "error \<Rightarrow> 'w state \<Rightarrow> 'w state" where
  "writeErr err s = emit (E_cb (Some (empty_Response\<lparr>Err := Some err\<rparr>))) s"

definition handleWithNoRetry :: "'w env \<Rightarrow> 'w state \<Rightarrow> ending \<times> 'w state" where
  "handleWithNoRetry env s =
     (case getEndpoint env s of
        (Failed err, s1) \<Rightarrow> (Returned, writeErr err s1)
      | (Panicked, s1) \<Rightarrow> (Unwound, s1)
      | (Selected ep, s1) \<Rightarrow>
          (let s2 = s1\<lparr>Inv := (Inv s1)\<lparr>Endpoint := ep\<rparr>\<rparr>;
               (r, index, w) = Next env (world s2) (HandlerIndex s2) (Inv s2);
               s3 = emit (E_Next (HandlerIndex s2) (Inv s2) r)
                      (s2\<lparr>HandlerIndex := index, world := w\<rparr>)
           in (Returned, case r of NotCalled \<Rightarrow> s3 | Called resp \<Rightarrow> emit (E_cb resp) s3)))"

text \<open>
  The closure \<^verbatim>\<open>operation\<close> of \<^verbatim>\<open>handleWithRetry\<close>, with the variables that it
  captures: \<^verbatim>\<open>retryOnSame\<close>, \<^verbatim>\<open>ep\<close> and \<^verbatim>\<open>handlerIndex\<close> are read, \<^verbatim>\<open>callTimes\<close>
  and \<^verbatim>\<open>invResp\<close> are written. The callback that it gives to the chain keeps a
  response that is not \<^verbatim>\<open>nil\<close> and returns its error.
\<close>

definition operation ::
  "'w env \<Rightarrow> go_int \<Rightarrow> string \<Rightarrow> go_int \<Rightarrow> 'w state \<Rightarrow> error option \<times> 'w state" where
  "operation env retryOnSame ep handlerIndex s =
     (if callTimes s = retryOnSame + 1 then
        (Some (PermanentError (ErrorString ''retry times expires'')), s)
      else
        (let s1 = s\<lparr>callTimes := callTimes s + 1\<rparr>;
             s2 = s1\<lparr>Inv := (Inv s1)\<lparr>Endpoint := ep\<rparr>\<rparr>;
             s3 = s2\<lparr>HandlerIndex := handlerIndex\<rparr>;
             (r, index, w) = Next env (world s3) (HandlerIndex s3) (Inv s3);
             s4 = emit (E_Next (HandlerIndex s3) (Inv s3) r)
                    (s3\<lparr>HandlerIndex := index, world := w\<rparr>)
         in case r of
              NotCalled \<Rightarrow> (None, s4)
            | Called None \<Rightarrow> (None, s4)
            | Called (Some resp) \<Rightarrow> (Err resp, s4\<lparr>invResp := Some resp\<rparr>)))"

text \<open>
  Modelled from the spec: \<^verbatim>\<open>backoff.Retry\<close> and the policy of \<^verbatim>\<open>config.GetBackOff\<close>
  are not in the source. By section 4.4 and the glossary the policy is a function from
  the attempt number to a wait, applied between calls that return a failure that is
  not permanent; a call that returns no error ends the procedure with no error, and a
  permanent error ends it with the error that it wraps. Nothing bounds the number of
  calls but the operation itself, so the procedure may run forever (\<open>None\<close>).
\<close>

partial_function (option) Retry ::
  "('w state \<Rightarrow> error option \<times> 'w state) \<Rightarrow> (nat \<Rightarrow> nat) \<Rightarrow> nat \<Rightarrow> 'w state
    \<Rightarrow> (error option \<times> 'w state) option" where
  "Retry op b k s =
     (case op s of
        (None, s') \<Rightarrow> Some (None, s')
      | (Some err, s') \<Rightarrow>
          (case err of
             PermanentError e \<Rightarrow> Some (Some e, s')
           | _ \<Rightarrow> Retry op b (Suc k) (emit (E_Sleep (b k)) s')))"

declare Retry.simps [code]

text \<open>
  The \<^verbatim>\<open>for\<close> statement of \<^verbatim>\<open>handleWithRetry\<close>, from the value \<open>j\<close> of its counter.
  Its test \<^verbatim>\<open>j < retryOnNext+1\<close> compares signed values, and the sum wraps around: for
  the largest \<^verbatim>\<open>int\<close> it is the least one.
\<close>

function rounds ::
  "'w env \<Rightarrow> go_int \<Rightarrow> go_int \<Rightarrow> go_int \<Rightarrow> go_int \<Rightarrow> 'w state
    \<Rightarrow> (loop_exit \<times> 'w state) option" where
  "rounds env retryOnSame retryOnNext handlerIndex j s =
     (if sint j < sint (retryOnNext + 1) then
        (case getEndpoint env s of
           (Failed err, s1) \<Rightarrow> Some (Return_in_loop, writeErr err s1)
         | (Panicked, s1) \<Rightarrow> Some (Panic_in_loop, s1)
         | (Selected ep, s1) \<Rightarrow>
             (let lbBackoff =
                    GetBackOff env (SourceMicroService (Inv s1)) (MicroServiceName (Inv s1));
                  s2 = s1\<lparr>callTimes := 0\<rparr>
              in case Retry (operation env retryOnSame ep handlerIndex) lbBackoff 0 s2 of
                   None \<Rightarrow> None
                 | Some (None, s3) \<Rightarrow> Some (Fallthrough, s3)
                 | Some (Some err, s3) \<Rightarrow>
                     rounds env retryOnSame retryOnNext handlerIndex (j + 1) s3))
      else Some (Fallthrough, s))"
  by pat_completeness auto
termination
proof (relation "measure (\<lambda>(env, retryOnSame, retryOnNext, handlerIndex, j, s).
        nat (sint (retryOnNext + 1) - sint j))")
  fix env :: "'w env" and retryOnSame retryOnNext handlerIndex j :: go_int
    and s s3 :: "'w state"
  assume less: "sint j < sint (retryOnNext + 1)"
  have "sint (retryOnNext + 1) < 2 ^ 63" "- (2 ^ 63) \<le> sint j"
    using sint_lt[of "retryOnNext + 1"] sint_ge[of j] by simp_all
  with less have "sint (j + 1) = sint j + 1"
    by (simp add: sint_word_ariths signed_take_bit_int_eq_self)
  with less
  show "((env, retryOnSame, retryOnNext, handlerIndex, j + 1, s3),
         (env, retryOnSame, retryOnNext, handlerIndex, j, s))
        \<in> measure (\<lambda>(env, retryOnSame, retryOnNext, handlerIndex, j, s).
             nat (sint (retryOnNext + 1) - sint j))"
    by simp
qed simp

definition handleWithRetry :: "'w env \<Rightarrow> 'w state \<Rightarrow> (ending \<times> 'w state) option" where
  "handleWithRetry env s =
     (let retryOnSame =
            GetRetryOnSame env (SourceMicroService (Inv s)) (MicroServiceName (Inv s));
          retryOnNext =
            GetRetryOnNext env (SourceMicroService (Inv s)) (MicroServiceName (Inv s));
          handlerIndex = HandlerIndex s;
          s0 = s\<lparr>invResp := None\<rparr>
      in case rounds env retryOnSame retryOnNext handlerIndex 0 s0 of
           None \<Rightarrow> None
         | Some (Return_in_loop, s1) \<Rightarrow> Some (Returned, s1)
         | Some (Panic_in_loop, s1) \<Rightarrow> Some (Unwound, s1)
         | Some (Fallthrough, s1) \<Rightarrow>
             (let s2 = (if invResp s1 = None then s1\<lparr>invResp := Some empty_Response\<rparr>
                        else s1)
              in Some (Returned, emit (E_cb (invResp s2)) s2)))"

definition Handle :: "'w env \<Rightarrow> 'w state \<Rightarrow> (ending \<times> 'w state) option" where
  "Handle env s =
     (if \<not> RetryEnabled env (SourceMicroService (Inv s)) (MicroServiceName (Inv s))
      then Some (handleWithNoRetry env s)
      else handleWithRetry env s)"

definition Name :: string where
  "Name = ''loadbalancer''"

subsection \<open>The words of the specification\<close>

text \<open>
  Section 4.2 of the specification on the metadata entry: "only the value portion
  after the first \<^verbatim>\<open>=\<close> is used".
\<close>

definition value_portion :: "string \<Rightarrow> string" where
  "value_portion s = tl (dropWhile (\<lambda>c. c \<noteq> CHR ''='') s)"

subsection \<open>Notions for the properties\<close>

text \<open>
  The strategy name that a selection resolves for the call \<open>i\<close>, and the filters that
  it passes on (lines 25 to 42).
\<close>

definition strategy_name :: "'w env \<Rightarrow> invocation \<Rightarrow> string" where
  "strategy_name env i =
     (if Strategy i = [] then GetStrategyName env (SourceMicroService i) (MicroServiceName i)
      else Strategy i)"

definition filters_of :: "'w env \<Rightarrow> invocation \<Rightarrow> string list" where
  "filters_of env i = (if Filters i = [] then GetServerListFilters env else Filters i)"

text \<open>
  The value of \<^verbatim>\<open>respErr\<close> that \<^verbatim>\<open>operation\<close> returns after the chain has done \<open>r\<close>
  with the callback: the error of the response, and no error when there is no
  response.
\<close>

definition respErr :: "chain_result \<Rightarrow> error option" where
  "respErr r =
     (case r of NotCalled \<Rightarrow> None | Called None \<Rightarrow> None | Called (Some resp) \<Rightarrow> Err resp)"

text \<open>The events of one selection for the call \<open>i\<close>, before \<^verbatim>\<open>getEndpoint\<close> is left.\<close>

fun lookup_event :: "'w env \<Rightarrow> invocation \<Rightarrow> event \<Rightarrow> bool" where
  "lookup_event env i (E_GetStrategyPlugin name) = (name = strategy_name env i)"
| "lookup_event env i (E_Errorf err e) = True"
| "lookup_event env i (E_BuildStrategy src dst p sessionID fs tags) =
     (src = SourceServiceID i \<and> dst = MicroServiceName i \<and> p = Protocol i
      \<and> fs = filters_of env i \<and> tags = RouteTags i)"
| "lookup_event env i E_Pick = True"
| "lookup_event env i (E_getEndpoint r) = False"
| "lookup_event env i (E_Next h i' r) = False"
| "lookup_event env i (E_cb r) = False"
| "lookup_event env i (E_Sleep d) = False"

text \<open>
  An event after which a retry sequence goes on: every event but a call of the
  callback, a selection that is left without an endpoint, and an advance of the chain
  that reports no error.
\<close>

fun quiet :: "event \<Rightarrow> bool" where
  "quiet (E_Next h i r) = (respErr r \<noteq> None)"
| "quiet (E_getEndpoint r) = (case r of Selected ep \<Rightarrow> True | Failed e \<Rightarrow> False | Panicked \<Rightarrow> False)"
| "quiet (E_cb r) = False"
| "quiet (E_GetStrategyPlugin name) = True"
| "quiet (E_Errorf err e) = True"
| "quiet (E_BuildStrategy src dst p sessionID fs tags) = True"
| "quiet E_Pick = True"
| "quiet (E_Sleep d) = True"

text \<open>
  The response that the chain has passed to the callback of \<^verbatim>\<open>operation\<close> last, over a
  list of events; \<open>x\<close> is the one before them.
\<close>

fun observed :: "response option \<Rightarrow> event list \<Rightarrow> response option" where
  "observed x [] = x"
| "observed x (E_Next h i (Called (Some resp)) # evs) = observed (Some resp) evs"
| "observed x (e # evs) = observed x evs"

text \<open>
  An event that agrees with what is fixed for a call \<open>i0\<close> handled with the cursor at
  \<open>h\<close>: the chain is advanced from \<open>h\<close>, and the strategy name and the filters are those
  of the first selection.
\<close>

fun pinned :: "'w env \<Rightarrow> invocation \<Rightarrow> go_int \<Rightarrow> event \<Rightarrow> bool" where
  "pinned env i0 h (E_Next h' i r) =
     (h' = h \<and> Strategy i = strategy_name env i0 \<and> Filters i = filters_of env i0)"
| "pinned env i0 h (E_GetStrategyPlugin name) = (name = strategy_name env i0)"
| "pinned env i0 h (E_BuildStrategy src dst p sessionID fs tags) = (fs = filters_of env i0)"
| "pinned env i0 h (E_Errorf err e) = True"
| "pinned env i0 h E_Pick = True"
| "pinned env i0 h (E_getEndpoint r) = True"
| "pinned env i0 h (E_cb r) = True"
| "pinned env i0 h (E_Sleep d) = True"

text \<open>
  The protocols that a list of events shows, in order: the one passed to
  \<^verbatim>\<open>BuildStrategy\<close> and the one of the call at each advance of the chain. A list of
  protocols is sticky when each one that is not empty is followed by itself only.
\<close>

fun protocols :: "event list \<Rightarrow> string list" where
  "protocols [] = []"
| "protocols (E_BuildStrategy src dst p sessionID fs tags # evs) = p # protocols evs"
| "protocols (E_Next h i r # evs) = Protocol i # protocols evs"
| "protocols (e # evs) = protocols evs"

fun sticky :: "string list \<Rightarrow> bool" where
  "sticky [] = True"
| "sticky (p # ps) = ((p = [] \<or> list_all (\<lambda>p'. p' = p) ps) \<and> sticky ps)"

text \<open>The number of advances of the chain and of selections in a list of events.\<close>

fun advances :: "event list \<Rightarrow> nat" where
  "advances [] = 0"
| "advances (E_Next h i r # evs) = Suc (advances evs)"
| "advances (e # evs) = advances evs"

fun selections :: "event list \<Rightarrow> nat" where
  "selections [] = 0"
| "selections (E_getEndpoint r # evs) = Suc (selections evs)"
| "selections (e # evs) = selections evs"

text \<open>
  \<open>history env s0 s q\<close>: the state \<open>s\<close> is reached from \<open>s0\<close> by the events \<open>q\<close>, all
  of them pinned, with sticky protocols up to the one of the call now; the call is
  still the same (and has the strategy name and the filters written to it once there has
  been a selection), and \<^verbatim>\<open>invResp\<close> is the response observed last.
\<close>

definition history :: "'w env \<Rightarrow> 'w state \<Rightarrow> 'w state \<Rightarrow> event list \<Rightarrow> bool" where
  "history env s0 s q \<longleftrightarrow>
     trace s = trace s0 @ q
     \<and> list_all (pinned env (Inv s0) (HandlerIndex s0)) q
     \<and> sticky (protocols q @ [Protocol (Inv s)])
     \<and> invResp s = observed None q
     \<and> strategy_name env (Inv s) = strategy_name env (Inv s0)
     \<and> filters_of env (Inv s) = filters_of env (Inv s0)
     \<and> (selections q = 0 \<or> Strategy (Inv s) = strategy_name env (Inv s0)
                            \<and> Filters (Inv s) = filters_of env (Inv s0))"

text \<open>
  The response that \<^verbatim>\<open>handleWithRetry\<close> gives to the callback after its loop:
  \<^verbatim>\<open>invResp\<close>, or an empty response when it is \<^verbatim>\<open>nil\<close>.
\<close>

definition reply :: "response option \<Rightarrow> response" where
  "reply x = (case x of None \<Rightarrow> empty_Response | Some r \<Rightarrow> r)"

text \<open>
  The chain reports a recoverable failure: it passes to the callback a response with an
  error that is not a \<^verbatim>\<open>backoff.PermanentError\<close>.
\<close>

definition recoverable :: "chain_result \<Rightarrow> bool" where
  "recoverable r =
     (case r of
        Called (Some resp) \<Rightarrow>
          (case Err resp of Some (PermanentError e) \<Rightarrow> False | Some e \<Rightarrow> True | None \<Rightarrow> False)
      | Called None \<Rightarrow> False
      | NotCalled \<Rightarrow> False)"

text \<open>
  An event of a sequence in which every selection succeeds and every advance of the
  chain reports a recoverable failure.
\<close>

fun failing :: "event \<Rightarrow> bool" where
  "failing (E_Next h i r) = recoverable r"
| "failing (E_getEndpoint r) = (case r of Selected ep \<Rightarrow> True | Failed e \<Rightarrow> False | Panicked \<Rightarrow> False)"
| "failing e = True"

text \<open>The call of the environment below as the chain gets it after a selection.\<close>

definition demo_sent :: invocation where
  "demo_sent =
     \<lparr>Endpoint = ''a:1'', Protocol = ''http'', SourceServiceID = ''7'',
      SourceMicroService = ''client'', MicroServiceName = ''server'',
      Strategy = ''RoundRobin'', Filters = [''zoneaware''], RouteTags = [],
      Args = Other_Args, Ctx = []\<rparr>"

text \<open>The value of \<^verbatim>\<open>chain.HandlerIndex\<close> at each advance of the chain, in order.\<close>

fun cursors :: "event list \<Rightarrow> go_int list" where
  "cursors [] = []"
| "cursors (E_Next h i r # evs) = h # cursors evs"
| "cursors (e # evs) = cursors evs"

text \<open>
  Section 4.3 (step 5) of the specification on the protocol: "if the call did not request
  one, look up the target service's configured transport preference, falling back to the
  instance's own default protocol; if still empty, pick an arbitrary key from the
  instance's protocol map". The key of the preference is the one of the source.
\<close>

definition resolve_protocol :: "'w env \<Rightarrow> invocation \<Rightarrow> microServiceInstance \<Rightarrow> string" where
  "resolve_protocol env i ins =
     (let p = (if Protocol i = []
               then GetString env (''cse.references.'' @ MicroServiceName i @ ''.transport'')
                      (DefaultProtocol ins)
               else Protocol i)
      in if p = [] then (case EndpointsMap ins of [] \<Rightarrow> [] | (k, v) # rest \<Rightarrow> k) else p)"


text \<open>The events that the chain and the caller see: the advances and the callbacks.\<close>

fun reported :: "event \<Rightarrow> bool" where
  "reported (E_Next h i r) = True"
| "reported (E_cb x) = True"
| "reported e = False"

subsection \<open>An environment to run the handler in\<close>

text \<open>
  The world is the number of calls of \<^verbatim>\<open>chain.Next\<close> so far; \<open>chain\<close> says what the
  chain does at each, and \<open>pick\<close> what the strategy picks. Retries are enabled for
  every call that names its source, with one retry on the same instance and one on
  the next. Two strategies are registered.
\<close>

definition demo_env ::
  "(nat \<Rightarrow> chain_result) \<Rightarrow> (nat \<Rightarrow> string + microServiceInstance) \<Rightarrow> nat env" where
  "demo_env chain pick =
     \<lparr>RetryEnabled = (\<lambda>src dst. src \<noteq> []),
      GetRetryOnSame = (\<lambda>src dst. 1),
      GetRetryOnNext = (\<lambda>src dst. 1),
      GetBackOff = (\<lambda>src dst k. 10),
      GetStrategyName = (\<lambda>src dst. ''RoundRobin''),
      GetServerListFilters = [''zoneaware''],
      archaius = (\<lambda>key. None),
      GetStrategyPlugin =
        (\<lambda>name. if name = ''RoundRobin'' \<or> name = ''SessionStickiness''
                then (Some (\<lambda>u w. (pick w, w)), None)
                else (None, Some (ErrorString ''unknown strategy''))),
      StrategySessionStickiness = ''SessionStickiness'',
      LBSessionID = ''lb-session-id'',
      BuildStrategy = (\<lambda>w src dst protocol sessionID filters strategy tags. (Inr strategy, w)),
      Next = (\<lambda>w index i. (chain w, index + 1, Suc w)),
      Sprintf = (\<lambda>format m. case Sprintf_v format [Sprint_map m] of Some t \<Rightarrow> t | None \<Rightarrow> [])\<rparr>"

definition demo_call :: invocation where
  "demo_call =
     \<lparr>Endpoint = [], Protocol = [], SourceServiceID = ''7'', SourceMicroService = ''client'',
      MicroServiceName = ''server'', Strategy = [], Filters = [], RouteTags = [],
      Args = Other_Args, Ctx = []\<rparr>"

definition demo_state :: "invocation \<Rightarrow> nat state" where
  "demo_state i =
     \<lparr>Inv = i, HandlerIndex = 3, world = 0, trace = [], callTimes = 0, invResp = None\<rparr>"

definition demo_instance :: microServiceInstance where
  "demo_instance =
     \<lparr>InstanceID = ''1'', DefaultProtocol = [],
      EndpointsMap = [(''http'', ''a:1''), (''grpc'', ''b:2'')]\<rparr>"

definition failure :: response where
  "failure = \<lparr>Status = 500, Result = [], Err = Some (ErrorString ''connection refused'')\<rparr>"

definition success :: response where
  "success = \<lparr>Status = 200, Result = ''ok'', Err = None\<rparr>"

section \<open>Properties\<close>

subsection \<open>What one selection and one attempt do\<close>

lemma emit_simps [simp]:
  "Inv (emit e s) = Inv s" "HandlerIndex (emit e s) = HandlerIndex s"
  "world (emit e s) = world s" "trace (emit e s) = trace s @ [e]"
  "callTimes (emit e s) = callTimes s" "invResp (emit e s) = invResp s"
  by (simp_all add: emit_def)

lemma getEndpoint_strategy_effect:
  assumes "getEndpoint_strategy env s = (f, s1)"
  shows "f = fst (GetStrategyPlugin env (strategy_name env (Inv s)))"
    and "Inv s1 = (Inv s)\<lparr>Strategy := strategy_name env (Inv s)\<rparr>"
    and "trace s1 = trace s @ E_GetStrategyPlugin (strategy_name env (Inv s)) #
           (case snd (GetStrategyPlugin env (strategy_name env (Inv s))) of
              None \<Rightarrow> []
            | Some e \<Rightarrow> [E_Errorf (Some e)
                (LBError (''Get strategy ['' @ strategy_name env (Inv s) @ ''] failed.''))])"
    and "HandlerIndex s1 = HandlerIndex s" and "world s1 = world s"
    and "callTimes s1 = callTimes s" and "invResp s1 = invResp s"
  using assms
  by (auto simp: getEndpoint_strategy_def strategy_name_def Let_def
      split: if_splits prod.splits option.splits)

lemma getEndpoint_pick_effect:
  assumes "getEndpoint_pick env f s1 = (p, s2)"
  shows "Inv s2 = (Inv s1)\<lparr>Filters := filters_of env (Inv s1)\<rparr>"
    and "\<exists>evs. trace s2 = trace s1 @ evs \<and> list_all (lookup_event env ((Inv s1)\<lparr>Strategy := n\<rparr>)) evs"
    and "HandlerIndex s2 = HandlerIndex s1"
    and "callTimes s2 = callTimes s1" and "invResp s2 = invResp s1"
    and "p = Nil_strategyFun \<longleftrightarrow> f = None"
  using assms
  by (auto simp: getEndpoint_pick_def filters_of_def Let_def
      split: if_splits prod.splits option.splits sum.splits)

lemma getEndpoint_protocol_effect:
  "Inv (getEndpoint_protocol env ins s) = (Inv s)\<lparr>Protocol := Protocol (Inv (getEndpoint_protocol env ins s))\<rparr>"
  "Protocol (Inv s) \<noteq> [] \<Longrightarrow> getEndpoint_protocol env ins s = s"
  "trace (getEndpoint_protocol env ins s) = trace s"
  "HandlerIndex (getEndpoint_protocol env ins s) = HandlerIndex s"
  "callTimes (getEndpoint_protocol env ins s) = callTimes s"
  "invResp (getEndpoint_protocol env ins s) = invResp s"
  "world (getEndpoint_protocol env ins s) = world s"
  by (auto simp: getEndpoint_protocol_def Let_def split: list.splits)

lemma getEndpoint_lookup_effect:
  assumes "getEndpoint_lookup env ins s2 = (r, s3)"
  shows "Inv s3 = (Inv s2)\<lparr>Protocol := Protocol (Inv s3)\<rparr>"
    and "Protocol (Inv s2) \<noteq> [] \<Longrightarrow> Protocol (Inv s3) = Protocol (Inv s2)"
    and "\<exists>evs. trace s3 = trace s2 @ evs \<and> list_all (lookup_event env i) evs"
    and "HandlerIndex s3 = HandlerIndex s2"
    and "callTimes s3 = callTimes s2" and "invResp s3 = invResp s2"
    and "r \<noteq> Panicked"
  using assms getEndpoint_protocol_effect(1)[of env ins s2]
  by (auto simp: getEndpoint_lookup_def Let_def getEndpoint_protocol_effect(2-)
      split: option.splits)

lemma getEndpoint_effect:
  assumes "getEndpoint env s = (r, s')"
  shows "\<exists>evs. trace s' = trace s @ evs @ [E_getEndpoint r]
           \<and> list_all (lookup_event env (Inv s)) evs"
    and "Inv s' = (Inv s)\<lparr>Strategy := strategy_name env (Inv s),
           Filters := filters_of env (Inv s), Protocol := Protocol (Inv s')\<rparr>"
    and "Protocol (Inv s) \<noteq> [] \<Longrightarrow> Protocol (Inv s') = Protocol (Inv s)"
    and "HandlerIndex s' = HandlerIndex s"
    and "callTimes s' = callTimes s" and "invResp s' = invResp s"
proof -
  obtain f s1 where 1: "getEndpoint_strategy env s = (f, s1)"
    by (cases "getEndpoint_strategy env s")
  obtain p s2 where 2: "getEndpoint_pick env f s1 = (p, s2)"
    by (cases "getEndpoint_pick env f s1")
  note e1 = getEndpoint_strategy_effect[OF 1]
  note e2 = getEndpoint_pick_effect[OF 2]
  have f1: "filters_of env (Inv s1) = filters_of env (Inv s)"
    by (simp add: e1(2) filters_of_def)
  obtain evs2 where t2: "trace s2 = trace s1 @ evs2"
    "list_all (lookup_event env ((Inv s1)\<lparr>Strategy := Strategy (Inv s)\<rparr>)) evs2"
    using e2(2) by blast
  have i1: "(Inv s1)\<lparr>Strategy := Strategy (Inv s)\<rparr> = Inv s"
    by (simp add: e1(2))
  have t1: "\<exists>evs. trace s1 = trace s @ evs \<and> list_all (lookup_event env (Inv s)) evs"
    by (simp add: e1(3) split: option.splits)
  have t12: "\<exists>evs. trace s2 = trace s @ evs \<and> list_all (lookup_event env (Inv s)) evs"
    using t1 t2 i1 by auto
  show "\<exists>evs. trace s' = trace s @ evs @ [E_getEndpoint r]
           \<and> list_all (lookup_event env (Inv s)) evs"
  proof (cases p)
    case (Instance ins)
    obtain r3 s3 where 3: "getEndpoint_lookup env ins s2 = (r3, s3)"
      by (cases "getEndpoint_lookup env ins s2")
    from getEndpoint_lookup_effect(3)[OF 3, of "Inv s"] t12 assms 1 2 3 Instance
    show ?thesis by (auto simp: getEndpoint_def)
  qed (use assms 1 2 t12 in \<open>auto simp: getEndpoint_def\<close>)
  show "Inv s' = (Inv s)\<lparr>Strategy := strategy_name env (Inv s),
           Filters := filters_of env (Inv s), Protocol := Protocol (Inv s')\<rparr>"
  proof (cases p)
    case (Instance ins)
    obtain r3 s3 where 3: "getEndpoint_lookup env ins s2 = (r3, s3)"
      by (cases "getEndpoint_lookup env ins s2")
    from getEndpoint_lookup_effect(1)[OF 3] assms 1 2 3 Instance e1(2) e2(1) f1
    show ?thesis by (auto simp: getEndpoint_def)
  qed (use assms 1 2 e1(2) e2(1) f1 in \<open>auto simp: getEndpoint_def\<close>)
  show "Protocol (Inv s') = Protocol (Inv s)" if "Protocol (Inv s) \<noteq> []"
  proof (cases p)
    case (Instance ins)
    obtain r3 s3 where 3: "getEndpoint_lookup env ins s2 = (r3, s3)"
      by (cases "getEndpoint_lookup env ins s2")
    from getEndpoint_lookup_effect(2)[OF 3] that assms 1 2 3 Instance e1(2) e2(1)
    show ?thesis by (auto simp: getEndpoint_def)
  qed (use assms 1 2 e1(2) e2(1) in \<open>auto simp: getEndpoint_def\<close>)
  show "HandlerIndex s' = HandlerIndex s" "callTimes s' = callTimes s" "invResp s' = invResp s"
  proof (atomize(full), cases p)
    case (Instance ins)
    obtain r3 s3 where 3: "getEndpoint_lookup env ins s2 = (r3, s3)"
      by (cases "getEndpoint_lookup env ins s2")
    from getEndpoint_lookup_effect(4-6)[OF 3] assms 1 2 3 Instance e1(4-) e2(3-)
    show "HandlerIndex s' = HandlerIndex s \<and> callTimes s' = callTimes s \<and> invResp s' = invResp s"
      by (auto simp: getEndpoint_def)
  qed (use assms 1 2 e1(4-) e2(3-) in \<open>auto simp: getEndpoint_def\<close>)
qed

lemma observed_append: "observed x (evs @ evs') = observed (observed x evs) evs'"
  by (induction x evs rule: observed.induct) auto

lemma protocols_append: "protocols (evs @ evs') = protocols evs @ protocols evs'"
  by (induction evs rule: protocols.induct) auto

lemma advances_append: "advances (evs @ evs') = advances evs + advances evs'"
  by (induction evs rule: advances.induct) auto

lemma selections_append: "selections (evs @ evs') = selections evs + selections evs'"
  by (induction evs rule: selections.induct) auto

lemma sticky_append:
  "sticky (ps @ qs) \<longleftrightarrow> sticky ps \<and> sticky qs \<and> (\<forall>p\<in>set ps. p = [] \<or> list_all (\<lambda>p'. p' = p) qs)"
  by (induction ps) (auto simp: list_all_iff)

lemma operation_effect:
  assumes "operation env m ep h s = (e, s1)"
  shows "(callTimes s = m + 1 \<and> e = Some (PermanentError (ErrorString ''retry times expires''))
            \<and> s1 = s)
         \<or> (callTimes s \<noteq> m + 1
            \<and> (\<exists>r. e = respErr r
                 \<and> trace s1 = trace s @ [E_Next h ((Inv s)\<lparr>Endpoint := ep\<rparr>) r]
                 \<and> Inv s1 = (Inv s)\<lparr>Endpoint := ep\<rparr>
                 \<and> callTimes s1 = callTimes s + 1
                 \<and> invResp s1 = observed (invResp s) [E_Next h ((Inv s)\<lparr>Endpoint := ep\<rparr>) r]
                 \<and> r = fst (Next env (world s) h ((Inv s)\<lparr>Endpoint := ep\<rparr>))))"
  using assms
  by (auto simp: operation_def Let_def respErr_def
      split: if_splits prod.splits chain_result.splits option.splits)

lemma strategy_name_idem [simp]:
  "strategy_name env (i\<lparr>Strategy := strategy_name env i\<rparr>) = strategy_name env i"
  by (simp add: strategy_name_def)

lemma filters_of_idem [simp]:
  "filters_of env (i\<lparr>Filters := filters_of env i\<rparr>) = filters_of env i"
  by (simp add: filters_of_def)

lemma selection_update [simp]:
  "strategy_name env (i\<lparr>Strategy := strategy_name env i, Filters := f, Protocol := p\<rparr>)
     = strategy_name env i"
  "filters_of env (i\<lparr>Strategy := n, Filters := filters_of env i, Protocol := p\<rparr>)
     = filters_of env i"
  by (simp_all add: strategy_name_def filters_of_def)

lemma lookup_event_quiet: "lookup_event env i e \<Longrightarrow> quiet e"
  by (cases e) auto

lemma lookup_event_pinned:
  "lookup_event env i e \<Longrightarrow> strategy_name env i = strategy_name env i0 \<Longrightarrow>
   filters_of env i = filters_of env i0 \<Longrightarrow> pinned env i0 h e"
  by (cases e) auto

lemma lookup_events_observed: "list_all (lookup_event env i) evs \<Longrightarrow> observed x evs = x"
  by (induction x evs rule: observed.induct) auto

lemma lookup_events_protocols:
  "list_all (lookup_event env i) evs \<Longrightarrow> list_all (\<lambda>p. p = Protocol i) (protocols evs)"
  by (induction evs rule: protocols.induct) auto

lemma lookup_events_advances: "list_all (lookup_event env i) evs \<Longrightarrow> advances evs = 0"
  by (induction evs rule: advances.induct) auto

lemma lookup_events_selections: "list_all (lookup_event env i) evs \<Longrightarrow> selections evs = 0"
  by (induction evs rule: selections.induct) auto

lemma sticky_extend:
  assumes "sticky (ps @ [p])" "list_all (\<lambda>x. x = p) qs" "p \<noteq> [] \<Longrightarrow> p' = p"
  shows "sticky (ps @ qs @ [p'])"
proof -
  have "sticky (qs @ [p'])"
    using assms(2,3) by (induction qs) (auto simp: list_all_iff)
  moreover have "\<forall>x\<in>set ps. x = [] \<or> list_all (\<lambda>y. y = x) (qs @ [p'])"
    using assms by (auto simp: sticky_append list_all_iff)
  ultimately show ?thesis
    using assms(1) by (simp add: sticky_append)
qed

lemma history_getEndpoint:
  assumes "history env s0 s q" "getEndpoint env s = (r, s1)"
  shows "\<exists>evs. history env s0 (s1\<lparr>callTimes := c\<rparr>) (q @ evs @ [E_getEndpoint r])
            \<and> list_all (lookup_event env (Inv s)) evs"
proof -
  note e = getEndpoint_effect[OF assms(2)]
  from e(1) obtain evs where evs: "trace s1 = trace s @ evs @ [E_getEndpoint r]"
    "list_all (lookup_event env (Inv s)) evs" by blast
  have h: "trace s = trace s0 @ q"
    "list_all (pinned env (Inv s0) (HandlerIndex s0)) q"
    "sticky (protocols q @ [Protocol (Inv s)])"
    "invResp s = observed None q"
    "strategy_name env (Inv s) = strategy_name env (Inv s0)"
    "filters_of env (Inv s) = filters_of env (Inv s0)"
    using assms(1) by (simp_all add: history_def)
  have 1: "list_all (pinned env (Inv s0) (HandlerIndex s0)) evs"
    using evs(2) h(5,6) by (auto simp: list_all_iff intro: lookup_event_pinned)
  have 2: "sticky (protocols q @ protocols evs @ [Protocol (Inv s1)])"
    using sticky_extend[OF h(3) lookup_events_protocols[OF evs(2)]] e(3) by blast
  have 3: "observed None (q @ evs @ [E_getEndpoint r]) = observed None q"
    by (simp add: observed_append lookup_events_observed[OF evs(2)])
  have 4: "strategy_name env (Inv s1) = strategy_name env (Inv s0)"
    "filters_of env (Inv s1) = filters_of env (Inv s0)"
    "Strategy (Inv s1) = strategy_name env (Inv s0)"
    "Filters (Inv s1) = filters_of env (Inv s0)"
  proof -
    obtain p where p: "Inv s1 = (Inv s)\<lparr>Strategy := strategy_name env (Inv s),
           Filters := filters_of env (Inv s), Protocol := p\<rparr>"
      using e(2) by blast
    show "strategy_name env (Inv s1) = strategy_name env (Inv s0)"
      "filters_of env (Inv s1) = filters_of env (Inv s0)"
      "Strategy (Inv s1) = strategy_name env (Inv s0)"
      "Filters (Inv s1) = filters_of env (Inv s0)"
      by (simp_all add: p h(5,6)[symmetric])
  qed
  show ?thesis
    using evs h(1,2,4) 1 2 3 4 e(6)
    by (intro exI[of _ evs]) (simp add: history_def protocols_append selections_append)
qed

lemma Endpoint_update [simp]:
  "strategy_name env (i\<lparr>Endpoint := ep\<rparr>) = strategy_name env i"
  "filters_of env (i\<lparr>Endpoint := ep\<rparr>) = filters_of env i"
  by (simp_all add: strategy_name_def filters_of_def)

lemma history_emit:
  assumes "history env s0 s q" "pinned env (Inv s0) (HandlerIndex s0) e" "protocols [e] = []"
    "observed (observed None q) [e] = observed None q" "selections [e] = 0"
  shows "history env s0 (emit e s) (q @ [e])"
  using assms
  by (auto simp: history_def protocols_append observed_append selections_append)

lemma history_operation:
  assumes "history env s0 s q" "selections q \<noteq> 0" "operation env m ep (HandlerIndex s0) s = (e, s1)"
  shows "(callTimes s = m + 1 \<and> e = Some (PermanentError (ErrorString ''retry times expires''))
            \<and> s1 = s)
         \<or> (callTimes s \<noteq> m + 1 \<and> callTimes s1 = callTimes s + 1
            \<and> (\<exists>r. e = respErr r
                 \<and> history env s0 s1 (q @ [E_Next (HandlerIndex s0) ((Inv s)\<lparr>Endpoint := ep\<rparr>) r])))"
proof -
  have h: "trace s = trace s0 @ q"
    "list_all (pinned env (Inv s0) (HandlerIndex s0)) q"
    "sticky (protocols q @ [Protocol (Inv s)])"
    "invResp s = observed None q"
    "strategy_name env (Inv s) = strategy_name env (Inv s0)"
    "filters_of env (Inv s) = filters_of env (Inv s0)"
    "Strategy (Inv s) = strategy_name env (Inv s0)"
    "Filters (Inv s) = filters_of env (Inv s0)"
    using assms(1,2) by (simp_all add: history_def)
  have st: "sticky (protocols q @ [Protocol (Inv s), Protocol (Inv s)])"
    using sticky_extend[OF h(3), of "[Protocol (Inv s)]" "Protocol (Inv s)"] by simp
  from operation_effect[OF assms(3)] show ?thesis
  proof (elim disjE conjE exE)
    fix r
    assume a: "callTimes s \<noteq> m + 1" "e = respErr r"
      "trace s1 = trace s @ [E_Next (HandlerIndex s0) ((Inv s)\<lparr>Endpoint := ep\<rparr>) r]"
      "Inv s1 = (Inv s)\<lparr>Endpoint := ep\<rparr>"
      "callTimes s1 = callTimes s + 1"
      "invResp s1 = observed (invResp s) [E_Next (HandlerIndex s0) ((Inv s)\<lparr>Endpoint := ep\<rparr>) r]"
    have "history env s0 s1 (q @ [E_Next (HandlerIndex s0) ((Inv s)\<lparr>Endpoint := ep\<rparr>) r])"
      unfolding history_def
      using a(3,4,6) h st
      by (simp add: protocols_append observed_append selections_append)
    with a show ?thesis by blast
  qed simp
qed

lemma Retry_history:
  assumes "Retry op b k s = Some y"
    and "op = operation env m ep (HandlerIndex s0)"
    and "history env s0 s q" "list_all quiet q" "selections q \<noteq> 0"
  shows "\<exists>q'. history env s0 (snd y) (q @ q') \<and> selections q' = 0
           \<and> (case fst y of
                 None \<Rightarrow> (\<exists>q1 i r. q' = q1 @ [E_Next (HandlerIndex s0) i r]
                            \<and> list_all quiet q1 \<and> respErr r = None)
               | Some e \<Rightarrow> list_all quiet q')"
  using assms
proof (induction op b k s y arbitrary: q rule: Retry.raw_induct[rotated 1, consumes 1])
  case (1 Retry' op b k s y)
  obtain e s1 where op: "op s = (e, s1)" by (cases "op s")
  from history_operation[OF "1.prems"(2,4) op[unfolded "1.prems"(1)]]
  show ?case
  proof (elim disjE conjE exE)
    assume a: "callTimes s = m + 1"
      "e = Some (PermanentError (ErrorString ''retry times expires''))" "s1 = s"
    with "1.hyps" op have "y = (Some (ErrorString ''retry times expires''), s)"
      by simp
    with "1.prems"(2) show ?case
      by (intro exI[of _ "[]"]) simp
  next
    fix r
    assume a: "callTimes s \<noteq> m + 1" "e = respErr r"
      "history env s0 s1 (q @ [E_Next (HandlerIndex s0) ((Inv s)\<lparr>Endpoint := ep\<rparr>) r])"
    let ?ev = "E_Next (HandlerIndex s0) ((Inv s)\<lparr>Endpoint := ep\<rparr>) r"
    show ?case
    proof (cases e)
      case None
      with "1.hyps" op have "y = (None, s1)" by simp
      with a None show ?thesis
        by (intro exI[of _ "[?ev]"]) auto
    next
      case (Some err)
      have qe: "quiet ?ev" using a(2) Some by (cases "respErr r") simp_all
      show ?thesis
      proof (cases "\<exists>e'. err = PermanentError e'")
        case True
        then obtain e' where "err = PermanentError e'" by blast
        with "1.hyps" op Some have "y = (Some e', s1)" by simp
        with a qe show ?thesis
          by (intro exI[of _ "[?ev]"]) auto
      next
        case False
        let ?s2 = "emit (E_Sleep (b k)) s1"
        from False "1.hyps" op Some have r: "Retry' op b (Suc k) ?s2 = Some y"
          by (cases err) auto
        have h2: "history env s0 ?s2 ((q @ [?ev]) @ [E_Sleep (b k)])"
          by (rule history_emit[OF a(3)]) simp_all
        from "1.IH"[OF r "1.prems"(1) h2] "1.prems"(3,4) qe
        obtain q' where q': "history env s0 (snd y) (((q @ [?ev]) @ [E_Sleep (b k)]) @ q')"
          "selections q' = 0"
          "case fst y of
             None \<Rightarrow> (\<exists>q1 i r. q' = q1 @ [E_Next (HandlerIndex s0) i r]
                        \<and> list_all quiet q1 \<and> respErr r = None)
           | Some e \<Rightarrow> list_all quiet q'"
          by (auto simp: selections_append)
        show ?thesis
        proof (intro exI[of _ "?ev # E_Sleep (b k) # q'"] conjI)
          show "history env s0 (snd y) (q @ ?ev # E_Sleep (b k) # q')"
            using q'(1) by simp
          show "selections (?ev # E_Sleep (b k) # q') = 0"
            using q'(2) by simp
          show "case fst y of
             None \<Rightarrow> (\<exists>q1 i r. ?ev # E_Sleep (b k) # q' = q1 @ [E_Next (HandlerIndex s0) i r]
                        \<and> list_all quiet q1 \<and> respErr r = None)
           | Some e \<Rightarrow> list_all quiet (?ev # E_Sleep (b k) # q')"
          proof (cases "fst y")
            case None
            with q'(3) obtain q1 i r' where "q' = q1 @ [E_Next (HandlerIndex s0) i r']"
              "list_all quiet q1" "respErr r' = None" by auto
            with None qe show ?thesis
              by (auto intro!: exI[of _ "?ev # E_Sleep (b k) # q1"])
          next
            case (Some e2)
            with q'(3) qe show ?thesis by simp
          qed
        qed
      qed
    qed
  qed
qed

lemma rounds_history:
  assumes "rounds env m n (HandlerIndex s0) j s = Some (fl, s')"
    and "history env s0 s q" "list_all quiet q"
  shows "\<exists>q1 fin. history env s0 s' (q @ q1 @ fin) \<and> list_all quiet q1
           \<and> (fl = Fallthrough \<and> fin = []
              \<or> fl = Fallthrough
                \<and> (\<exists>i r. fin = [E_Next (HandlerIndex s0) i r] \<and> respErr r = None)
              \<or> fl = Return_in_loop
                \<and> (\<exists>e. fin = [E_getEndpoint (Failed e),
                                E_cb (Some (empty_Response\<lparr>Err := Some e\<rparr>))])
              \<or> fl = Panic_in_loop \<and> fin = [E_getEndpoint Panicked])"
  using assms
proof (induction "nat (sint (n + 1) - sint j)" arbitrary: j s q)
  case 0
  then have "\<not> sint j < sint (n + 1)" by simp
  with "0.prems"(1) have "fl = Fallthrough" "s' = s"
    by (simp_all add: rounds.simps[of env m n "HandlerIndex s0" j s])
  with "0.prems"(2) show ?case
    by (intro exI[of _ "[]"]) simp
next
  case (Suc x)
  then have j1: "sint j < sint (n + 1)" by simp
  have "sint (n + 1) < 2 ^ 63" "- (2 ^ 63) \<le> sint j"
    using sint_lt[of "n + 1"] sint_ge[of j] by simp_all
  with j1 have "sint (j + 1) = sint j + 1"
    by (simp add: sint_word_ariths signed_take_bit_int_eq_self)
  with Suc.hyps(2) j1 have j: "sint j < sint (n + 1)" "x = nat (sint (n + 1) - sint (j + 1))"
    by simp_all
  obtain r s1 where g: "getEndpoint env s = (r, s1)" by (cases "getEndpoint env s")
  from history_getEndpoint[OF Suc.prems(2) g, of 0]
  obtain evs where evs: "history env s0 (s1\<lparr>callTimes := 0\<rparr>) (q @ evs @ [E_getEndpoint r])"
    "list_all (lookup_event env (Inv s)) evs" by blast
  from history_getEndpoint[OF Suc.prems(2) g, of "callTimes s1"]
  have h1: "\<exists>evs. history env s0 s1 (q @ evs @ [E_getEndpoint r])
              \<and> list_all (lookup_event env (Inv s)) evs" by simp
  have qevs: "list_all quiet evs" if "list_all (lookup_event env (Inv s)) evs" for evs
    using that by (auto simp: list_all_iff intro: lookup_event_quiet)
  show ?case
  proof (cases r)
    case (Failed e)
    with Suc.prems(1) j g have fl: "fl = Return_in_loop" "s' = writeErr e s1"
      by (simp_all add: rounds.simps[of env m n "HandlerIndex s0" j s])
    from h1 obtain evs' where e': "history env s0 s1 (q @ evs' @ [E_getEndpoint r])"
      "list_all (lookup_event env (Inv s)) evs'" by blast
    have "history env s0 s' ((q @ evs' @ [E_getEndpoint r])
             @ [E_cb (Some (empty_Response\<lparr>Err := Some e\<rparr>))])"
      unfolding fl writeErr_def by (rule history_emit[OF e'(1)]) simp_all
    with fl Failed qevs[OF e'(2)] show ?thesis
      by (intro exI[of _ evs'] exI[of _ "[E_getEndpoint (Failed e),
            E_cb (Some (empty_Response\<lparr>Err := Some e\<rparr>))]"]) simp
  next
    case Panicked
    with Suc.prems(1) j g have fl: "fl = Panic_in_loop" "s' = s1"
      by (simp_all add: rounds.simps[of env m n "HandlerIndex s0" j s])
    from h1 obtain evs' where e': "history env s0 s1 (q @ evs' @ [E_getEndpoint r])"
      "list_all (lookup_event env (Inv s)) evs'" by blast
    with fl Panicked qevs[OF e'(2)] show ?thesis
      by (intro exI[of _ evs'] exI[of _ "[E_getEndpoint Panicked]"]) simp
  next
    case (Selected ep)
    let ?b = "GetBackOff env (SourceMicroService (Inv s1)) (MicroServiceName (Inv s1))"
    let ?q = "q @ evs @ [E_getEndpoint r]"
    have q2: "list_all quiet ?q" "selections ?q \<noteq> 0"
      using Suc.prems(3) qevs[OF evs(2)] Selected by (simp_all add: selections_append)
    from Suc.prems(1) j g Selected
    obtain err s3 where
      rt: "Retry (operation env m ep (HandlerIndex s0)) ?b 0 (s1\<lparr>callTimes := 0\<rparr>) = Some (err, s3)"
      by (auto simp: rounds.simps[of env m n "HandlerIndex s0" j s] Let_def
          split: option.splits)
    from Retry_history[OF rt refl evs(1) q2]
    obtain q' where q': "history env s0 s3 (?q @ q')" "selections q' = 0"
      "case err of
         None \<Rightarrow> (\<exists>q1 i r. q' = q1 @ [E_Next (HandlerIndex s0) i r]
                    \<and> list_all quiet q1 \<and> respErr r = None)
       | Some e \<Rightarrow> list_all quiet q'"
      by auto
    show ?thesis
    proof (cases err)
      case None
      with Suc.prems(1) j g Selected rt have fl: "fl = Fallthrough" "s' = s3"
        by (simp_all add: rounds.simps[of env m n "HandlerIndex s0" j s])
      from q'(3) None obtain q1 i r' where q1: "q' = q1 @ [E_Next (HandlerIndex s0) i r']"
        "list_all quiet q1" "respErr r' = None" by auto
      have "history env s0 s' (q @ (evs @ E_getEndpoint r # q1) @ [E_Next (HandlerIndex s0) i r'])"
        using q'(1) q1(1) fl by simp
      moreover have "list_all quiet (evs @ E_getEndpoint r # q1)"
        using q2(1) q1(2) by simp
      ultimately show ?thesis
        using fl q1(3) by blast
    next
      case (Some e)
      with Suc.prems(1) j g Selected rt
      have rec: "rounds env m n (HandlerIndex s0) (j + 1) s3 = Some (fl, s')"
        by (simp add: rounds.simps[of env m n "HandlerIndex s0" j s])
      have q3: "list_all quiet (?q @ q')"
        using q2(1) q'(3) Some by simp
      from Suc.hyps(1)[OF j(2) rec q'(1) q3]
      obtain q1 fin where f: "history env s0 s' ((?q @ q') @ q1 @ fin)" "list_all quiet q1"
        "fl = Fallthrough \<and> fin = []
              \<or> fl = Fallthrough
                \<and> (\<exists>i r. fin = [E_Next (HandlerIndex s0) i r] \<and> respErr r = None)
              \<or> fl = Return_in_loop
                \<and> (\<exists>e. fin = [E_getEndpoint (Failed e),
                                E_cb (Some (empty_Response\<lparr>Err := Some e\<rparr>))])
              \<or> fl = Panic_in_loop \<and> fin = [E_getEndpoint Panicked]"
        by blast
      have "history env s0 s' (q @ (evs @ E_getEndpoint r # q' @ q1) @ fin)"
        using f(1) by simp
      moreover have "list_all quiet (evs @ E_getEndpoint r # q' @ q1)"
        using q3 f(2) by simp
      ultimately show ?thesis
        using f(3) by blast
    qed
  qed
qed


lemma history_start: "history env s (s\<lparr>invResp := None\<rparr>) []"
  by (simp add: history_def)

lemma history_start_eq:
  "history env (s\<lparr>invResp := None\<rparr>) s' q = history env s s' q"
  by (simp add: history_def)

lemma handleWithRetry_shape:
  assumes "handleWithRetry env s = Some (fl, s')"
  shows "\<exists>q fin. trace s' = trace s @ q @ fin
           \<and> list_all (pinned env (Inv s) (HandlerIndex s)) (q @ fin)
           \<and> sticky (protocols (q @ fin) @ [Protocol (Inv s')])
           \<and> (selections (q @ fin) = 0 \<or> Strategy (Inv s') = strategy_name env (Inv s)
                                          \<and> Filters (Inv s') = filters_of env (Inv s))
           \<and> list_all quiet q
           \<and> (fl = Returned \<and> fin = [E_cb (Some (reply (observed None q)))]
              \<or> fl = Returned
                \<and> (\<exists>i r. respErr r = None
                      \<and> fin = [E_Next (HandlerIndex s) i r,
                               E_cb (Some (reply (observed None (q @ [E_Next (HandlerIndex s) i r]))))])
              \<or> fl = Returned
                \<and> (\<exists>e. fin = [E_getEndpoint (Failed e),
                                E_cb (Some (empty_Response\<lparr>Err := Some e\<rparr>))])
              \<or> fl = Unwound \<and> fin = [E_getEndpoint Panicked])"
proof -
  let ?m = "GetRetryOnSame env (SourceMicroService (Inv s)) (MicroServiceName (Inv s))"
  let ?n = "GetRetryOnNext env (SourceMicroService (Inv s)) (MicroServiceName (Inv s))"
  let ?s0 = "s\<lparr>invResp := None\<rparr>"
  from assms obtain lx s1 where
    r: "rounds env ?m ?n (HandlerIndex s) 0 ?s0 = Some (lx, s1)"
    by (auto simp: handleWithRetry_def Let_def split: option.splits)
  from rounds_history[of env ?m ?n s 0 ?s0 lx s1 "[]", OF r history_start]
  obtain q1 fin where f: "history env s s1 (q1 @ fin)" "list_all quiet q1"
    "lx = Fallthrough \<and> fin = []
              \<or> lx = Fallthrough
                \<and> (\<exists>i r. fin = [E_Next (HandlerIndex s) i r] \<and> respErr r = None)
              \<or> lx = Return_in_loop
                \<and> (\<exists>e. fin = [E_getEndpoint (Failed e),
                                E_cb (Some (empty_Response\<lparr>Err := Some e\<rparr>))])
              \<or> lx = Panic_in_loop \<and> fin = [E_getEndpoint Panicked]"
    by auto
  have ir: "invResp s1 = observed None (q1 @ fin)"
    using f(1) by (simp add: history_def)
  show ?thesis
  proof (cases lx)
    case Fallthrough
    let ?s2 = "if invResp s1 = None then s1\<lparr>invResp := Some empty_Response\<rparr> else s1"
    let ?cb = "E_cb (Some (reply (observed None (q1 @ fin))))"
    have s': "fl = Returned" "s' = emit (E_cb (invResp ?s2)) ?s2"
      using assms r Fallthrough by (simp_all add: handleWithRetry_def Let_def)
    have cb: "invResp ?s2 = Some (reply (observed None (q1 @ fin)))"
      using ir by (auto simp: reply_def)
    have h1: "trace s1 = trace s @ q1 @ fin"
      "list_all (pinned env (Inv s) (HandlerIndex s)) (q1 @ fin)"
      "sticky (protocols (q1 @ fin) @ [Protocol (Inv s1)])"
      "selections (q1 @ fin) = 0 \<or> Strategy (Inv s1) = strategy_name env (Inv s)
         \<and> Filters (Inv s1) = filters_of env (Inv s)"
      using f(1) by (simp_all add: history_def)
    have s2: "trace ?s2 = trace s1" "Inv ?s2 = Inv s1"
      by simp_all
    have h: "trace s' = trace s @ (q1 @ fin) @ [?cb]"
      "list_all (pinned env (Inv s) (HandlerIndex s)) ((q1 @ fin) @ [?cb])"
      "sticky (protocols ((q1 @ fin) @ [?cb]) @ [Protocol (Inv s')])"
      "selections ((q1 @ fin) @ [?cb]) = 0 \<or> Strategy (Inv s') = strategy_name env (Inv s)
         \<and> Filters (Inv s') = filters_of env (Inv s)"
      using h1 unfolding s' cb
      by (simp_all add: s2 protocols_append selections_append del: append_assoc)
    from f(3) Fallthrough consider "fin = []"
      | i r where "fin = [E_Next (HandlerIndex s) i r]" "respErr r = None" by auto
    then show ?thesis
    proof cases
      case 1
      with h f(2) s' show ?thesis
        by (intro exI[of _ q1] exI[of _ "[?cb]"]) simp
    next
      case 2
      with h f(2) s' show ?thesis
        by (intro exI[of _ q1] exI[of _ "[E_Next (HandlerIndex s) i r, ?cb]"]) auto
    qed
  next
    case Return_in_loop
    with assms r have "fl = Returned" "s' = s1"
      by (simp_all add: handleWithRetry_def Let_def)
    moreover from f(3) Return_in_loop obtain e where
      "fin = [E_getEndpoint (Failed e), E_cb (Some (empty_Response\<lparr>Err := Some e\<rparr>))]"
      by auto
    ultimately show ?thesis
      using f(1,2)
      by (intro exI[of _ q1] exI[of _ fin]) (simp add: history_def)
  next
    case Panic_in_loop
    with assms r have "fl = Unwound" "s' = s1"
      by (simp_all add: handleWithRetry_def Let_def)
    moreover from f(3) Panic_in_loop have "fin = [E_getEndpoint Panicked]"
      by auto
    ultimately show ?thesis
      using f(1,2)
      by (intro exI[of _ q1] exI[of _ fin]) (simp add: history_def)
  qed
qed


subsection \<open>The session token\<close>

lemma Split_not_Nil: "Split s c \<noteq> []"
  by (cases s) auto

lemma hd_Split: "hd (Split s c) = takeWhile (\<lambda>x. x \<noteq> c) s"
  by (induction s) auto

lemma tl_Split:
  "tl (Split s c) =
     (if c \<in> set s then Split (tl (dropWhile (\<lambda>x. x \<noteq> c) s)) c else [])"
  by (induction s) auto

lemma length_Split: "1 < length (Split s c) \<longleftrightarrow> c \<in> set s"
  using Split_not_Nil[of s c] tl_Split[of s c]
    Split_not_Nil[of "tl (dropWhile (\<lambda>x. x \<noteq> c) s)" c]
  by (cases "Split s c") (auto split: if_splits)

lemma Split_nth_1:
  "c \<in> set s \<Longrightarrow>
     Split s c ! 1 = takeWhile (\<lambda>x. x \<noteq> c) (tl (dropWhile (\<lambda>x. x \<noteq> c) s))"
  using Split_not_Nil[of s c] tl_Split[of s c]
    hd_Split[of "tl (dropWhile (\<lambda>x. x \<noteq> c) s)" c]
    Split_not_Nil[of "tl (dropWhile (\<lambda>x. x \<noteq> c) s)" c]
  by (cases "Split s c") (auto simp: nth_Cons' hd_conv_nth split: if_splits)

lemma no_separator:
  "c \<notin> set s \<Longrightarrow> takeWhile (\<lambda>x. x \<noteq> c) (tl (dropWhile (\<lambda>x. x \<noteq> c) s)) = []"
  by (induction s) auto

text \<open>
  What \<^verbatim>\<open>getSessionID\<close> computes: for a \<^verbatim>\<open>*rest.Request\<close>, the value of the cookie
  named \<^verbatim>\<open>common.LBSessionID\<close> (empty when there is none); for any other arguments,
  of the value portion after the first \<^verbatim>\<open>=\<close> of the metadata entry of that name, what
  comes before the next \<^verbatim>\<open>=\<close>.
\<close>

lemma getSessionID_token:
  "getSessionID env i =
     (case Args i of
        Rest_Request req \<Rightarrow> GetCookie req (LBSessionID env)
      | Other_Args \<Rightarrow>
          takeWhile (\<lambda>c. c \<noteq> CHR ''='')
            (value_portion (GetContextMetadata (Ctx i) (LBSessionID env))))"
  by (cases "Args i")
    (auto simp: getSessionID_def Let_def value_portion_def length_Split Split_nth_1
      no_separator simp del: One_nat_def)

text \<open>
  So the token is the whole value portion when that holds no further \<^verbatim>\<open>=\<close>, and it is
  empty when the entry is empty or has no \<^verbatim>\<open>=\<close>.
\<close>

lemma getSessionID_value_portion:
  assumes "Args i = Other_Args"
    and "CHR ''='' \<notin> set (value_portion (GetContextMetadata (Ctx i) (LBSessionID env)))"
  shows "getSessionID env i = value_portion (GetContextMetadata (Ctx i) (LBSessionID env))"
  using assms by (auto simp: getSessionID_token takeWhile_eq_all_conv)

text \<open>
  The three examples of the specification: the cookie \<^verbatim>\<open>lb-session-id=abc\<close>, the
  metadata value \<^verbatim>\<open>lb-session-id=xyz\<close>, and neither.
\<close>

lemma getSessionID_examples:
  "getSessionID (demo_env (\<lambda>w. NotCalled) (\<lambda>w. Inr demo_instance))
     (demo_call\<lparr>Args := Rest_Request [(''lb-session-id'', ''abc'')]\<rparr>) = ''abc''
   \<and> getSessionID (demo_env (\<lambda>w. NotCalled) (\<lambda>w. Inr demo_instance))
     (demo_call\<lparr>Ctx := [(''lb-session-id'', ''lb-session-id=xyz'')]\<rparr>) = ''xyz''
   \<and> getSessionID (demo_env (\<lambda>w. NotCalled) (\<lambda>w. Inr demo_instance)) demo_call = []"
  using
    getSessionID_token[of "demo_env (\<lambda>w. NotCalled) (\<lambda>w. Inr demo_instance)"
      "demo_call\<lparr>Args := Rest_Request [(''lb-session-id'', ''abc'')]\<rparr>"]
    getSessionID_token[of "demo_env (\<lambda>w. NotCalled) (\<lambda>w. Inr demo_instance)"
      "demo_call\<lparr>Ctx := [(''lb-session-id'', ''lb-session-id=xyz'')]\<rparr>"]
    getSessionID_token[of "demo_env (\<lambda>w. NotCalled) (\<lambda>w. Inr demo_instance)" demo_call]
  by (simp add: demo_env_def demo_call_def GetCookie_def GetContextMetadata_def
      value_portion_def)

text \<open>
  C7 fails on the code. For arguments that are not a \<^verbatim>\<open>*rest.Request\<close> the session
  token is to be the value portion after the first \<^verbatim>\<open>=\<close> of the metadata entry. The
  code takes element 1 of \<^verbatim>\<open>strings.Split(value, "=")\<close>, which ends at the second
  \<^verbatim>\<open>=\<close>: of \<^verbatim>\<open>lb-session-id=a=b\<close> the value portion is \<^verbatim>\<open>a=b\<close>, and the token is
  \<^verbatim>\<open>a\<close>. The cookie of a \<^verbatim>\<open>*rest.Request\<close> is returned whole.
\<close>

theorem getSessionID_second_separator:
  "getSessionID (demo_env (\<lambda>w. NotCalled) (\<lambda>w. Inr demo_instance))
     (demo_call\<lparr>Ctx := [(''lb-session-id'', ''lb-session-id=a=b'')]\<rparr>) = ''a''
   \<and> value_portion
       (GetContextMetadata (Ctx (demo_call\<lparr>Ctx := [(''lb-session-id'', ''lb-session-id=a=b'')]\<rparr>))
          (LBSessionID (demo_env (\<lambda>w. NotCalled) (\<lambda>w. Inr demo_instance)))) = ''a=b''
   \<and> getSessionID (demo_env (\<lambda>w. NotCalled) (\<lambda>w. Inr demo_instance))
       (demo_call\<lparr>Args := Rest_Request [(''lb-session-id'', ''a=b'')]\<rparr>) = ''a=b''"
  by (simp add: getSessionID_def demo_env_def demo_call_def GetContextMetadata_def
      GetCookie_def value_portion_def)

subsection \<open>The retry sequence\<close>

lemma split_at_first:
  assumes "xs @ ys = pre @ x # post" "list_all P xs" "\<not> P x"
  shows "\<exists>zs. pre = xs @ zs \<and> ys = zs @ x # post"
  using assms
proof (induction xs arbitrary: pre)
  case Nil
  then show ?case by simp
next
  case (Cons a xs)
  then show ?case by (cases pre) auto
qed

lemma pinned_events:
  assumes "list_all (pinned env i0 h0) evs"
  shows "E_Next h i r \<in> set evs \<Longrightarrow>
           h = h0 \<and> Strategy i = strategy_name env i0 \<and> Filters i = filters_of env i0"
    and "E_GetStrategyPlugin name \<in> set evs \<Longrightarrow> name = strategy_name env i0"
    and "E_BuildStrategy src dst p sessionID fs tags \<in> set evs \<Longrightarrow> fs = filters_of env i0"
  using assms by (induction evs) auto

lemma recoverable_respErr:
  "recoverable r \<Longrightarrow> \<exists>e. respErr r = Some e \<and> (\<forall>e'. e \<noteq> PermanentError e')"
  by (auto simp: recoverable_def respErr_def split: chain_result.splits option.splits error.splits)

lemma Retry_run:
  "\<exists>err s' evs. Retry (operation env m ep h) b k s = Some (err, s')
           \<and> trace s' = trace s @ evs \<and> invResp s' = observed (invResp s) evs
           \<and> selections evs = 0
           \<and> (list_all failing evs \<longrightarrow>
                err = Some (ErrorString ''retry times expires'')
                \<and> advances evs = unat (m + 1 - callTimes s))"
proof (induction "unat (m + 1 - callTimes s)" arbitrary: s k)
  case 0
  then have c: "callTimes s = m + 1" by (simp add: unat_eq_0)
  then have "operation env m ep h s = (Some (PermanentError (ErrorString ''retry times expires'')), s)"
    by (simp add: operation_def)
  then have "Retry (operation env m ep h) b k s = Some (Some (ErrorString ''retry times expires''), s)"
    by (subst Retry.simps) simp
  with c show ?case by (intro exI[of _ "Some (ErrorString ''retry times expires'')"] exI[of _ s] exI[of _ "[]"]) simp
next
  case (Suc x)
  then have c: "callTimes s \<noteq> m + 1" by auto
  have less: "unat (m + 1 - (callTimes s + 1)) = x"
  proof -
    from c have "m + 1 - callTimes s \<noteq> 0" by simp
    from unat_minus_one[OF this] Suc.hyps(2) show ?thesis
      by (simp add: diff_diff_eq)
  qed
  obtain e s1 where op: "operation env m ep h s = (e, s1)"
    by (cases "operation env m ep h s")
  from operation_effect[OF op] c obtain r where r: "e = respErr r"
    "trace s1 = trace s @ [E_Next h ((Inv s)\<lparr>Endpoint := ep\<rparr>) r]"
    "callTimes s1 = callTimes s + 1"
    "invResp s1 = observed (invResp s) [E_Next h ((Inv s)\<lparr>Endpoint := ep\<rparr>) r]"
    by auto
  let ?ev = "E_Next h ((Inv s)\<lparr>Endpoint := ep\<rparr>) r"
  have nf: "\<not> recoverable r" if "\<forall>e'. e \<noteq> Some e' \<or> (\<exists>e''. e' = PermanentError e'')"
    using that recoverable_respErr[of r] r(1) by auto
  show ?case
  proof (cases e)
    case None
    with op have "Retry (operation env m ep h) b k s = Some (None, s1)"
      by (subst Retry.simps) simp
    moreover have "\<not> recoverable r" using nf None by simp
    ultimately show ?thesis
      using r by (intro exI[of _ None] exI[of _ s1] exI[of _ "[?ev]"]) simp
  next
    case (Some err)
    show ?thesis
    proof (cases "\<exists>e'. err = PermanentError e'")
      case True
      then obtain e' where e': "err = PermanentError e'" by blast
      with op Some have "Retry (operation env m ep h) b k s = Some (Some e', s1)"
        by (subst Retry.simps) simp
      moreover have "\<not> recoverable r" using nf Some e' by simp
      ultimately show ?thesis
        using r by (intro exI[of _ "Some e'"] exI[of _ s1] exI[of _ "[?ev]"]) simp
    next
      case False
      let ?s2 = "emit (E_Sleep (b k)) s1"
      from False op Some
      have u: "Retry (operation env m ep h) b k s = Retry (operation env m ep h) b (Suc k) ?s2"
        by (subst Retry.simps) (cases err; simp)
      have m2: "x = unat (m + 1 - callTimes ?s2)"
        using less r(3) by simp
      from Suc.hyps(1)[OF m2, of "Suc k"] obtain err' s' evs where
        rec: "Retry (operation env m ep h) b (Suc k) ?s2 = Some (err', s')"
        "trace s' = trace ?s2 @ evs" "invResp s' = observed (invResp ?s2) evs"
        "selections evs = 0"
        "list_all failing evs \<longrightarrow>
           err' = Some (ErrorString ''retry times expires'')
           \<and> advances evs = unat (m + 1 - callTimes ?s2)"
        by blast
      show ?thesis
      proof (intro exI[of _ err'] exI[of _ s'] exI[of _ "?ev # E_Sleep (b k) # evs"] conjI impI)
        show "Retry (operation env m ep h) b k s = Some (err', s')"
          using u rec(1) by simp
        show "trace s' = trace s @ ?ev # E_Sleep (b k) # evs"
          using rec(2) r(2) by simp
        show "invResp s' = observed (invResp s) (?ev # E_Sleep (b k) # evs)"
          using rec(3) r(4) observed_append[of "invResp s" "[?ev]" "E_Sleep (b k) # evs"]
          by simp
        show "selections (?ev # E_Sleep (b k) # evs) = 0"
          using rec(4) by simp
      next
        assume "list_all failing (?ev # E_Sleep (b k) # evs)"
        then have "list_all failing evs" by simp
        with rec(5) show "err' = Some (ErrorString ''retry times expires'')"
          by simp
      next
        assume "list_all failing (?ev # E_Sleep (b k) # evs)"
        then have "list_all failing evs" by simp
        with rec(5) have "advances evs = unat (m + 1 - callTimes ?s2)" by simp
        then show "advances (?ev # E_Sleep (b k) # evs) = unat (m + 1 - callTimes s)"
          using m2 Suc.hyps(2) by simp
      qed
    qed
  qed
qed

lemma rounds_run:
  "\<exists>fl s' evs. rounds env m n h j s = Some (fl, s')
           \<and> trace s' = trace s @ evs \<and> invResp s' = observed (invResp s) evs
           \<and> (list_all failing evs \<longrightarrow>
                fl = Fallthrough \<and> advances evs = nat (sint (n + 1) - sint j) * unat (m + 1))"
proof (induction "nat (sint (n + 1) - sint j)" arbitrary: j s)
  case 0
  then have "\<not> sint j < sint (n + 1)" by simp
  then have "rounds env m n h j s = Some (Fallthrough, s)"
    by (simp add: rounds.simps[of env m n h j s])
  with 0 show ?case
    by (intro exI[of _ Fallthrough] exI[of _ s] exI[of _ "[]"]) simp
next
  case (Suc x)
  then have j: "sint j < sint (n + 1)" by simp
  have "sint (n + 1) < 2 ^ 63" "- (2 ^ 63) \<le> sint j"
    using sint_lt[of "n + 1"] sint_ge[of j] by simp_all
  with j have step: "sint (j + 1) = sint j + 1"
    by (simp add: sint_word_ariths signed_take_bit_int_eq_self)
  with Suc.hyps(2) have x: "x = nat (sint (n + 1) - sint (j + 1))" by simp
  have mult: "nat (sint (n + 1) - sint j) * unat (m + 1)
                = unat (m + 1) + nat (sint (n + 1) - sint (j + 1)) * unat (m + 1)"
  proof -
    have "nat (sint (n + 1) - sint j) = Suc (nat (sint (n + 1) - sint (j + 1)))"
      using j step by simp
    then show ?thesis by simp
  qed
  obtain r s1 where g: "getEndpoint env s = (r, s1)" by (cases "getEndpoint env s")
  from getEndpoint_effect(1,6)[OF g] obtain evs1 where
    e1: "trace s1 = trace s @ evs1 @ [E_getEndpoint r]"
    "list_all (lookup_event env (Inv s)) evs1" "invResp s1 = invResp s" by blast
  have o1: "observed x (evs1 @ [E_getEndpoint r]) = x" for x
    by (simp add: observed_append lookup_events_observed[OF e1(2)])
  have a1: "advances (evs1 @ [E_getEndpoint r]) = 0"
    by (simp add: advances_append lookup_events_advances[OF e1(2)])
  show ?case
  proof (cases r)
    case (Failed e)
    with j g have "rounds env m n h j s = Some (Return_in_loop, writeErr e s1)"
      by (simp add: rounds.simps[of env m n h j s])
    with e1 Failed o1 show ?thesis
      by (intro exI[of _ Return_in_loop] exI[of _ "writeErr e s1"]
          exI[of _ "evs1 @ [E_getEndpoint r, E_cb (Some (empty_Response\<lparr>Err := Some e\<rparr>))]"])
        (simp add: writeErr_def observed_append lookup_events_observed)
  next
    case Panicked
    with j g have "rounds env m n h j s = Some (Panic_in_loop, s1)"
      by (simp add: rounds.simps[of env m n h j s])
    with e1 Panicked o1 show ?thesis
      by (intro exI[of _ Panic_in_loop] exI[of _ s1] exI[of _ "evs1 @ [E_getEndpoint r]"])
        simp
  next
    case (Selected ep)
    let ?b = "GetBackOff env (SourceMicroService (Inv s1)) (MicroServiceName (Inv s1))"
    let ?s2 = "s1\<lparr>callTimes := 0\<rparr>"
    from Retry_run[of env m ep h ?b 0 ?s2] obtain err s3 evs2 where
      rt: "Retry (operation env m ep h) ?b 0 ?s2 = Some (err, s3)"
      "trace s3 = trace ?s2 @ evs2" "invResp s3 = observed (invResp ?s2) evs2"
      "list_all failing evs2 \<longrightarrow>
         err = Some (ErrorString ''retry times expires'') \<and> advances evs2 = unat (m + 1)"
      by auto
    have t3: "trace s3 = trace s @ (evs1 @ [E_getEndpoint r]) @ evs2"
      "invResp s3 = observed (invResp s) ((evs1 @ [E_getEndpoint r]) @ evs2)"
      using rt(2,3) e1(1,3) o1 by (simp_all add: observed_append del: append_assoc)
    show ?thesis
    proof (cases err)
      case None
      with j g Selected rt(1) have "rounds env m n h j s = Some (Fallthrough, s3)"
        by (simp add: rounds.simps[of env m n h j s])
      moreover have "\<not> list_all failing evs2" using rt(4) None by auto
      ultimately show ?thesis
        using t3
        by (intro exI[of _ Fallthrough] exI[of _ s3] exI[of _ "(evs1 @ [E_getEndpoint r]) @ evs2"])
          simp
    next
      case (Some e)
      with j g Selected rt(1)
      have u: "rounds env m n h j s = rounds env m n h (j + 1) s3"
        by (simp add: rounds.simps[of env m n h j s])
      from Suc.hyps(1)[OF x, of s3] obtain fl s' evs3 where
        rec: "rounds env m n h (j + 1) s3 = Some (fl, s')"
        "trace s' = trace s3 @ evs3" "invResp s' = observed (invResp s3) evs3"
        "list_all failing evs3 \<longrightarrow>
           fl = Fallthrough \<and> advances evs3 = nat (sint (n + 1) - sint (j + 1)) * unat (m + 1)"
        by blast
      let ?evs = "((evs1 @ [E_getEndpoint r]) @ evs2) @ evs3"
      show ?thesis
      proof (intro exI[of _ fl] exI[of _ s'] exI[of _ ?evs] conjI impI)
        show "rounds env m n h j s = Some (fl, s')" using u rec(1) by simp
        show "trace s' = trace s @ ?evs" using rec(2) t3(1) by simp
        show "invResp s' = observed (invResp s) ?evs"
          using rec(3) t3(2) observed_append[of "invResp s" "(evs1 @ [E_getEndpoint r]) @ evs2" evs3]
          by simp
      next
        assume "list_all failing ?evs"
        then have "list_all failing evs3" by simp
        with rec(4) show "fl = Fallthrough" by simp
      next
        assume f: "list_all failing ?evs"
        then have "list_all failing evs3" "list_all failing evs2" by simp_all
        with rec(4) rt(4) have "advances evs3 = nat (sint (n + 1) - sint (j + 1)) * unat (m + 1)"
          "advances evs2 = unat (m + 1)" by simp_all
        then show "advances ?evs = nat (sint (n + 1) - sint j) * unat (m + 1)"
          using a1 mult by (simp add: advances_append del: append_assoc)
      qed
    qed
  qed
qed

lemma observed_failing:
  assumes "list_all failing evs" "0 < advances evs"
  shows "\<exists>resp e. observed x evs = Some resp \<and> Err resp = Some e
           \<and> (\<forall>e'. e \<noteq> PermanentError e')"
  using assms
proof (induction evs arbitrary: x rule: rev_induct)
  case Nil
  then show ?case by simp
next
  case (snoc e evs)
  show ?case
  proof (cases "\<exists>h i r. e = E_Next h i r")
    case True
    then obtain h i r where e: "e = E_Next h i r" by blast
    with snoc.prems(1) have "recoverable r" by simp
    then obtain resp err where "r = Called (Some resp)" "Err resp = Some err"
      "\<forall>e'. err \<noteq> PermanentError e'"
      by (auto simp: recoverable_def split: chain_result.splits option.splits error.splits)
    with e show ?thesis by (simp add: observed_append)
  next
    case False
    then have o: "observed y [e] = y" "advances [e] = 0" for y
      by (cases e; simp)+
    with snoc show ?thesis by (simp add: observed_append advances_append)
  qed
qed

lemma failing_iff:
  "list_all failing evs \<longleftrightarrow>
     (\<forall>r. E_getEndpoint r \<in> set evs \<longrightarrow> (\<exists>ep. r = Selected ep))
     \<and> (\<forall>h i r. E_Next h i r \<in> set evs \<longrightarrow> recoverable r)"
proof (induction evs)
  case Nil
  then show ?case by simp
next
  case (Cons e evs)
  show ?case
  proof (cases e)
    case (E_getEndpoint r)
    with Cons show ?thesis by (cases r) auto
  qed (use Cons in auto)
qed

lemma handleWithRetry_returns: "\<exists>y. handleWithRetry env s = Some y"
proof -
  let ?m = "GetRetryOnSame env (SourceMicroService (Inv s)) (MicroServiceName (Inv s))"
  let ?n = "GetRetryOnNext env (SourceMicroService (Inv s)) (MicroServiceName (Inv s))"
  from rounds_run[of env ?m ?n "HandlerIndex s" 0 "s\<lparr>invResp := None\<rparr>"]
  obtain fl s1 where "rounds env ?m ?n (HandlerIndex s) 0 (s\<lparr>invResp := None\<rparr>) = Some (fl, s1)"
    by blast
  then show ?thesis
    by (cases fl) (simp_all add: handleWithRetry_def Let_def)
qed

text \<open>
  The number of advances of a retry sequence in which every selection succeeds and
  every advance of the chain reports a recoverable error: \<^verbatim>\<open>retryOnSame + 1\<close>, read as
  an unsigned number, in each of the rounds, of which there are as many as the signed
  value of \<^verbatim>\<open>retryOnNext + 1\<close>, and none if that is negative. The callback gets the
  response that the chain reported last, or an empty one.
\<close>

lemma exhausted_count:
  assumes "RetryEnabled env (SourceMicroService (Inv s)) (MicroServiceName (Inv s))"
  shows "\<exists>fl s' evs. Handle env s = Some (fl, s') \<and> trace s' = trace s @ evs
           \<and> ((\<forall>r. E_getEndpoint r \<in> set evs \<longrightarrow> (\<exists>ep. r = Selected ep))
               \<and> (\<forall>h i r. E_Next h i r \<in> set evs \<longrightarrow> recoverable r)
               \<longrightarrow> fl = Returned
                 \<and> advances evs =
                     nat (sint (GetRetryOnNext env (SourceMicroService (Inv s))
                                  (MicroServiceName (Inv s)) + 1))
                     * unat (GetRetryOnSame env (SourceMicroService (Inv s))
                               (MicroServiceName (Inv s)) + 1)
                 \<and> last evs = E_cb (Some (reply (observed None evs)))
                 \<and> (0 < advances evs \<longrightarrow>
                       (\<exists>e. Err (reply (observed None evs)) = Some e
                          \<and> (\<forall>e'. e \<noteq> PermanentError e'))))"
proof -
  let ?m = "GetRetryOnSame env (SourceMicroService (Inv s)) (MicroServiceName (Inv s))"
  let ?n = "GetRetryOnNext env (SourceMicroService (Inv s)) (MicroServiceName (Inv s))"
  let ?s0 = "s\<lparr>invResp := None\<rparr>"
  from rounds_run[of env ?m ?n "HandlerIndex s" 0 ?s0]
  obtain lx s1 evs where r: "rounds env ?m ?n (HandlerIndex s) 0 ?s0 = Some (lx, s1)"
    "trace s1 = trace s @ evs" "invResp s1 = observed None evs"
    "list_all failing evs \<longrightarrow> lx = Fallthrough \<and> advances evs = nat (sint (?n + 1)) * unat (?m + 1)"
    by auto
  show ?thesis
  proof (cases lx)
    case Fallthrough
    let ?s2 = "if invResp s1 = None then s1\<lparr>invResp := Some empty_Response\<rparr> else s1"
    let ?cb = "E_cb (Some (reply (observed None evs)))"
    have cb: "invResp ?s2 = Some (reply (observed None evs))"
      using r(3) by (auto simp: reply_def)
    have h: "Handle env s = Some (Returned, emit (E_cb (invResp ?s2)) ?s2)"
      using assms(1) r(1) Fallthrough by (simp add: Handle_def handleWithRetry_def Let_def)
    have t: "trace (emit (E_cb (invResp ?s2)) ?s2) = trace s @ evs @ [?cb]"
      unfolding cb using r(2) by simp
    have o: "observed None (evs @ [?cb]) = observed None evs"
      by (simp add: observed_append)
    show ?thesis
    proof (intro exI[of _ Returned] exI[of _ "emit (E_cb (invResp ?s2)) ?s2"]
        exI[of _ "evs @ [?cb]"] conjI impI h t refl)
      assume a: "(\<forall>r. E_getEndpoint r \<in> set (evs @ [?cb]) \<longrightarrow> (\<exists>ep. r = Selected ep))
               \<and> (\<forall>h i r. E_Next h i r \<in> set (evs @ [?cb]) \<longrightarrow> recoverable r)"
      then have f: "list_all failing evs"
        by (subst failing_iff) auto
      with r(4) show "advances (evs @ [?cb]) = nat (sint (?n + 1)) * unat (?m + 1)"
        by (simp add: advances_append)
      show "last (evs @ [?cb]) = E_cb (Some (reply (observed None (evs @ [?cb]))))"
        unfolding o by simp
      assume "0 < advances (evs @ [?cb])"
      then have "0 < advances evs" by (simp add: advances_append)
      from observed_failing[OF f this, of None] obtain resp e where
        "observed None evs = Some resp" "Err resp = Some e" "\<forall>e'. e \<noteq> PermanentError e'"
        by blast
      then show "\<exists>e. Err (reply (observed None (evs @ [?cb]))) = Some e
                  \<and> (\<forall>e'. e \<noteq> PermanentError e')"
        unfolding o by (simp add: reply_def)
    qed
  next
    case Return_in_loop
    with assms(1) r(1) have h: "Handle env s = Some (Returned, s1)"
      by (simp add: Handle_def handleWithRetry_def Let_def)
    from r(4) Return_in_loop have "\<not> list_all failing evs" by auto
    then have "\<not> ((\<forall>r. E_getEndpoint r \<in> set evs \<longrightarrow> (\<exists>ep. r = Selected ep))
               \<and> (\<forall>h i r. E_Next h i r \<in> set evs \<longrightarrow> recoverable r))"
      unfolding failing_iff .
    with h r(2) show ?thesis
      by (intro exI[of _ Returned] exI[of _ s1] exI[of _ evs] conjI) (assumption, assumption, blast)
  next
    case Panic_in_loop
    with assms(1) r(1) have h: "Handle env s = Some (Unwound, s1)"
      by (simp add: Handle_def handleWithRetry_def Let_def)
    from r(4) Panic_in_loop have "\<not> list_all failing evs" by auto
    then have "\<not> ((\<forall>r. E_getEndpoint r \<in> set evs \<longrightarrow> (\<exists>ep. r = Selected ep))
               \<and> (\<forall>h i r. E_Next h i r \<in> set evs \<longrightarrow> recoverable r))"
      unfolding failing_iff .
    with h r(2) show ?thesis
      by (intro exI[of _ Unwound] exI[of _ s1] exI[of _ evs] conjI) (assumption, assumption, blast)
  qed
qed

text \<open>
  When \<open>n =\<close> \<^verbatim>\<open>retryOnNext\<close> is not negative and below the largest \<^verbatim>\<open>int\<close>, and
  \<open>m =\<close> \<^verbatim>\<open>retryOnSame\<close> is not negative, that number is \<open>(n + 1) * (m + 1)\<close>.
\<close>

lemma exhausted_count_in_range:
  fixes n m :: go_int
  assumes "0 \<le> sint n" "n \<noteq> 9223372036854775807" "0 \<le> sint m"
  shows "nat (sint (n + 1)) * unat (m + 1) = nat ((sint n + 1) * (sint m + 1))"
proof -
  have "sint n < 2 ^ 63" using sint_lt[of n] by simp
  moreover have "sint n \<noteq> 2 ^ 63 - 1"
  proof
    assume "sint n = 2 ^ 63 - 1"
    then have "sint n = sint (9223372036854775807 :: go_int)" by simp
    with assms(2) show False by (simp only: word_eq_iff_signed[symmetric])
  qed
  ultimately have n: "sint (n + 1) = sint n + 1"
    using assms(1) by (simp add: sint_word_ariths signed_take_bit_int_eq_self)
  have "sint m < 2 ^ 63" using sint_lt[of m] by simp
  moreover have "m + 1 = word_of_int (sint m + 1)" by simp
  then have "uint (m + 1) = take_bit 64 (sint m + 1)"
    by (simp only: uint_word_of_int_eq) simp
  ultimately have "uint (m + 1) = sint m + 1"
    using assms(3) by (simp add: take_bit_int_eq_self)
  then have m: "unat (m + 1) = nat (sint m + 1)" by (simp add: unat_eq_nat_uint)
  from assms(1,3) show ?thesis
    unfolding n m by (simp add: nat_mult_distrib)
qed

text \<open>
  C1 fails on the code. With \<^verbatim>\<open>retryOnNext\<close> the largest \<^verbatim>\<open>int\<close>, 9223372036854775807,
  and \<^verbatim>\<open>retryOnSame = 1\<close>, the sum \<^verbatim>\<open>retryOnNext+1\<close> in the test of the \<^verbatim>\<open>for\<close>
  statement wraps around to the least \<^verbatim>\<open>int\<close>, and no round is run, although the
  instance is always picked and the chain always fails: the chain is not advanced at
  all, where \<open>(n + 1) * (m + 1)\<close> advances are due, and the callback gets an empty
  response, which carries no error.
\<close>

theorem retry_rounds_wrap_around:
  "map_option (\<lambda>(fl, s'). (fl, trace s'))
     (Handle ((demo_env (\<lambda>w. Called (Some failure)) (\<lambda>w. Inr demo_instance))
                \<lparr>GetRetryOnNext := \<lambda>src dst. 9223372036854775807\<rparr>)
        (demo_state demo_call))
   = Some (Returned, [E_cb (Some empty_Response)])
   \<and> Err empty_Response = None
   \<and> (9223372036854775807 + 1 :: go_int) = - 9223372036854775808"
  by code_simp

text \<open>
  The same call with one retry each way: the chain is advanced four times, and the
  callback gets the failure.
\<close>

lemma demo_exhausted_run:
  "map_option (\<lambda>(fl, s'). (fl, advances (trace s'), last (trace s')))
     (Handle (demo_env (\<lambda>w. Called (Some failure)) (\<lambda>w. Inr demo_instance))
        (demo_state demo_call))
   = Some (Returned, 4, E_cb (Some failure))"
  by code_simp

lemma Handle_retry_shape:
  assumes "RetryEnabled env (SourceMicroService (Inv s)) (MicroServiceName (Inv s))"
    and "Handle env s = Some (fl, s')" and "trace s' = trace s @ evs"
  shows "\<exists>q fin. evs = q @ fin
           \<and> list_all (pinned env (Inv s) (HandlerIndex s)) evs
           \<and> sticky (protocols evs @ [Protocol (Inv s')])
           \<and> (selections evs = 0 \<or> Strategy (Inv s') = strategy_name env (Inv s)
                                  \<and> Filters (Inv s') = filters_of env (Inv s))
           \<and> list_all quiet q
           \<and> (fl = Returned \<and> fin = [E_cb (Some (reply (observed None q)))]
              \<or> fl = Returned
                \<and> (\<exists>i r. respErr r = None
                      \<and> fin = [E_Next (HandlerIndex s) i r,
                               E_cb (Some (reply (observed None (q @ [E_Next (HandlerIndex s) i r]))))])
              \<or> fl = Returned
                \<and> (\<exists>e. fin = [E_getEndpoint (Failed e),
                                E_cb (Some (empty_Response\<lparr>Err := Some e\<rparr>))])
              \<or> fl = Unwound \<and> fin = [E_getEndpoint Panicked])"
proof -
  from assms have "handleWithRetry env s = Some (fl, s')"
    by (simp add: Handle_def)
  from handleWithRetry_shape[OF this] assms(3) show ?thesis
    by (elim exE conjE) (intro exI conjI; (assumption | simp)?)
qed

lemma Handle_retry_returns:
  assumes "RetryEnabled env (SourceMicroService (Inv s)) (MicroServiceName (Inv s))"
  shows "\<exists>fl s' evs. Handle env s = Some (fl, s') \<and> trace s' = trace s @ evs"
proof -
  from handleWithRetry_returns[of env s] obtain fl s' where
    h: "handleWithRetry env s = Some (fl, s')" by auto
  from handleWithRetry_shape[OF h] obtain evs where "trace s' = trace s @ evs" by blast
  with h assms(1) show ?thesis by (auto simp: Handle_def)
qed

lemma cursors_replicate:
  "(\<And>h i r. E_Next h i r \<in> set evs \<Longrightarrow> h = c) \<Longrightarrow> cursors evs = replicate (advances evs) c"
  by (induction evs rule: cursors.induct) auto

text \<open>
  C8. In retry mode, whenever the chain is advanced, \<^verbatim>\<open>chain.HandlerIndex\<close> has the value
  that it had when the handler was entered, whatever the chain has done to it in the
  attempts before; and the handler returns when \<^verbatim>\<open>retryOnSame\<close> is not negative.
\<close>

theorem cursor_reset:
  assumes "RetryEnabled env (SourceMicroService (Inv s)) (MicroServiceName (Inv s))"
  shows "(0 \<le> sint (GetRetryOnSame env (SourceMicroService (Inv s)) (MicroServiceName (Inv s)))
            \<longrightarrow> (\<exists>fl s' evs. Handle env s = Some (fl, s') \<and> trace s' = trace s @ evs))
         \<and> (\<forall>fl s' evs h i r.
               Handle env s = Some (fl, s') \<and> trace s' = trace s @ evs
               \<and> E_Next h i r \<in> set evs
               \<longrightarrow> h = HandlerIndex s)"
proof (intro conjI impI allI)
  assume "0 \<le> sint (GetRetryOnSame env (SourceMicroService (Inv s)) (MicroServiceName (Inv s)))"
  from assms show "\<exists>fl s' evs. Handle env s = Some (fl, s') \<and> trace s' = trace s @ evs"
    by (rule Handle_retry_returns)
next
  fix fl s' evs h i r
  assume a: "Handle env s = Some (fl, s') \<and> trace s' = trace s @ evs \<and> E_Next h i r \<in> set evs"
  with Handle_retry_shape[OF assms, of fl s' evs]
  have "list_all (pinned env (Inv s) (HandlerIndex s)) evs" by blast
  with a show "h = HandlerIndex s"
    by (blast dest: pinned_events(1))
qed

lemma demo_cursor_run:
  "(case Handle (demo_env (\<lambda>w. Called (Some failure)) (\<lambda>w. Inr demo_instance))
           (demo_state demo_call) of
      None \<Rightarrow> False
    | Some (fl, s') \<Rightarrow> advances (trace s') = 4 \<and> HandlerIndex s' = 4)"
  by code_simp

theorem cursor_reset_witness:
  "\<exists>fl s'. Handle (demo_env (\<lambda>w. Called (Some failure)) (\<lambda>w. Inr demo_instance))
              (demo_state demo_call) = Some (fl, s')
     \<and> cursors (trace s') = [3, 3, 3, 3] \<and> HandlerIndex s' = 4"
proof -
  let ?E = "demo_env (\<lambda>w. Called (Some failure)) (\<lambda>w. Inr demo_instance)"
  let ?S = "demo_state demo_call"
  have c: "RetryEnabled ?E (SourceMicroService (Inv ?S)) (MicroServiceName (Inv ?S))"
    "trace ?S = []" "HandlerIndex ?S = 3"
    by (simp_all add: demo_env_def demo_state_def demo_call_def)
  from demo_cursor_run obtain fl s' where
    r: "Handle ?E ?S = Some (fl, s')" "advances (trace s') = 4" "HandlerIndex s' = 4"
    by (auto split: option.splits)
  from cursor_reset[OF c(1)] r(1) c(2,3)
  have "\<And>h i r. E_Next h i r \<in> set (trace s') \<Longrightarrow> h = 3"
    by (metis append_Nil)
  from cursors_replicate[of "trace s'" 3, OF this] r show ?thesis
    by (simp add: numeral_eq_Suc)
qed

text \<open>
  In retry mode, an advance of the chain that reports no error is the last thing the
  handler does but for one call of the callback: no attempt and no selection follows,
  and the callback has not been called before. The callback gets the response that
  the chain has passed last: the one of that advance, if it has passed one.
\<close>

lemma no_error_stops:
  assumes "RetryEnabled env (SourceMicroService (Inv s)) (MicroServiceName (Inv s))"
    and "Handle env s = Some (fl, s')" "trace s' = trace s @ pre @ E_Next h i r # post"
    and "respErr r = None"
  shows "fl = Returned" "E_cb x \<notin> set pre"
    and "post = [E_cb (Some (reply (observed None (pre @ [E_Next h i r]))))]"
    and "r = Called (Some resp) \<Longrightarrow> post = [E_cb (Some resp)]"
proof -
  from Handle_retry_shape[OF assms(1,2), of "pre @ E_Next h i r # post"] assms(3)
  obtain q fin where
    t: "pre @ E_Next h i r # post = q @ fin" and q: "list_all quiet q" and
    f: "fl = Returned \<and> fin = [E_cb (Some (reply (observed None q)))]
              \<or> fl = Returned
                \<and> (\<exists>i r. respErr r = None
                      \<and> fin = [E_Next (HandlerIndex s) i r,
                               E_cb (Some (reply (observed None (q @ [E_Next (HandlerIndex s) i r]))))])
              \<or> fl = Returned
                \<and> (\<exists>e. fin = [E_getEndpoint (Failed e),
                                E_cb (Some (empty_Response\<lparr>Err := Some e\<rparr>))])
              \<or> fl = Unwound \<and> fin = [E_getEndpoint Panicked]"
    by blast
  from split_at_first[OF t[symmetric] q] assms(4) obtain zs where
    zs: "pre = q @ zs" "fin = zs @ E_Next h i r # post" by auto
  have ncb: "E_cb x \<notin> set q" for x
    using q by (auto simp: list_all_iff)
  from f zs ncb
  have all: "fl = Returned \<and> (\<forall>x. E_cb x \<notin> set pre)
                 \<and> post = [E_cb (Some (reply (observed None (pre @ [E_Next h i r]))))]"
    by (elim disjE conjE exE)
      (auto simp: append_eq_Cons_conv Cons_eq_append_conv)
  then show "fl = Returned" "E_cb x \<notin> set pre"
    "post = [E_cb (Some (reply (observed None (pre @ [E_Next h i r]))))]"
    by simp_all
  then show "post = [E_cb (Some resp)]" if "r = Called (Some resp)"
    using that by (simp add: observed_append reply_def)
qed

text \<open>
  A run in which the third advance passes a response with no error: it is the last
  one, and the callback gets that response.
\<close>

lemma demo_success_run:
  "map_option (\<lambda>(fl, s'). (fl, filter reported (trace s')))
     (Handle (demo_env (\<lambda>w. if w < 2 then Called (Some failure) else Called (Some success))
                (\<lambda>w. Inr demo_instance))
        (demo_state demo_call))
   = Some (Returned,
       [E_Next 3 demo_sent (Called (Some failure)), E_Next 3 demo_sent (Called (Some failure)),
        E_Next 3 demo_sent (Called (Some success)), E_cb (Some success)])"
  by code_simp


text \<open>
  C4. In retry mode, a selection that fails is the last thing the handler does but for
  one call of the callback: no attempt and no selection follows, the callback has not
  been called before, and it is called with a response that carries the error of that
  selection. The handler returns when \<^verbatim>\<open>retryOnSame\<close> is not negative.
\<close>

theorem selection_failure_stops:
  assumes "RetryEnabled env (SourceMicroService (Inv s)) (MicroServiceName (Inv s))"
  shows "(0 \<le> sint (GetRetryOnSame env (SourceMicroService (Inv s)) (MicroServiceName (Inv s)))
            \<longrightarrow> (\<exists>fl s' evs. Handle env s = Some (fl, s') \<and> trace s' = trace s @ evs))
         \<and> (\<forall>fl s' pre e post.
               Handle env s = Some (fl, s')
               \<and> trace s' = trace s @ pre @ E_getEndpoint (Failed e) # post
               \<longrightarrow> fl = Returned \<and> (\<forall>x. E_cb x \<notin> set pre)
                 \<and> post = [E_cb (Some (empty_Response\<lparr>Err := Some e\<rparr>))])"
proof (rule conjI; intro impI allI)
  assume "0 \<le> sint (GetRetryOnSame env (SourceMicroService (Inv s)) (MicroServiceName (Inv s)))"
  from assms show "\<exists>fl s' evs. Handle env s = Some (fl, s') \<and> trace s' = trace s @ evs"
    by (rule Handle_retry_returns)
next
  fix fl s' pre e post
  assume a: "Handle env s = Some (fl, s')
               \<and> trace s' = trace s @ pre @ E_getEndpoint (Failed e) # post"
  from Handle_retry_shape[OF assms, of fl s' "pre @ E_getEndpoint (Failed e) # post"] a
  obtain q fin where
    t: "pre @ E_getEndpoint (Failed e) # post = q @ fin" and q: "list_all quiet q" and
    f: "fl = Returned \<and> fin = [E_cb (Some (reply (observed None q)))]
              \<or> fl = Returned
                \<and> (\<exists>i r. respErr r = None
                      \<and> fin = [E_Next (HandlerIndex s) i r,
                               E_cb (Some (reply (observed None (q @ [E_Next (HandlerIndex s) i r]))))])
              \<or> fl = Returned
                \<and> (\<exists>e. fin = [E_getEndpoint (Failed e),
                                E_cb (Some (empty_Response\<lparr>Err := Some e\<rparr>))])
              \<or> fl = Unwound \<and> fin = [E_getEndpoint Panicked]"
    by blast
  from split_at_first[OF t[symmetric] q] obtain zs where
    zs: "pre = q @ zs" "fin = zs @ E_getEndpoint (Failed e) # post" by auto
  have ncb: "E_cb x \<notin> set q" for x
    using q by (auto simp: list_all_iff)
  from f zs ncb
  have "fl = Returned \<and> (\<forall>x. E_cb x \<notin> set pre)
          \<and> post = [E_cb (Some (empty_Response\<lparr>Err := Some e\<rparr>))]"
    by (elim disjE conjE exE) (auto simp: append_eq_Cons_conv Cons_eq_append_conv)
  then show "fl = Returned \<and> (\<forall>x. E_cb x \<notin> set pre)
          \<and> post = [E_cb (Some (empty_Response\<lparr>Err := Some e\<rparr>))]" .
qed

lemma demo_no_instance_run:
  "(case Handle (demo_env (\<lambda>w. Called (Some failure))
                  (\<lambda>w. if w < 2 then Inr demo_instance else Inl ''no instance''))
           (demo_state demo_call) of
      None \<Rightarrow> False
    | Some (fl, s') \<Rightarrow>
        advances (trace s') = 2 \<and> selections (trace s') = 2
        \<and> trace s' = take 11 (trace s') @ E_getEndpoint (Failed (LBError ''no instance''))
                         # drop 12 (trace s'))"
  by code_simp

theorem selection_failure_stops_witness:
  "\<exists>s'. Handle (demo_env (\<lambda>w. Called (Some failure))
                  (\<lambda>w. if w < 2 then Inr demo_instance else Inl ''no instance''))
           (demo_state demo_call) = Some (Returned, s')
     \<and> advances (trace s') = 2 \<and> selections (trace s') = 2
     \<and> last (trace s') = E_cb (Some (empty_Response\<lparr>Err := Some (LBError ''no instance'')\<rparr>))"
proof -
  let ?E = "demo_env (\<lambda>w. Called (Some failure))
              (\<lambda>w. if w < 2 then Inr demo_instance else Inl ''no instance'')"
  let ?S = "demo_state demo_call"
  have c: "RetryEnabled ?E (SourceMicroService (Inv ?S)) (MicroServiceName (Inv ?S))"
    "trace ?S = []"
    by (simp_all add: demo_env_def demo_state_def demo_call_def)
  from demo_no_instance_run obtain fl s' where
    r: "Handle ?E ?S = Some (fl, s')" "advances (trace s') = 2" "selections (trace s') = 2"
    "trace s' = take 11 (trace s') @ E_getEndpoint (Failed (LBError ''no instance''))
                  # drop 12 (trace s')"
    by (cases "Handle ?E ?S") auto
  from r(4) have t: "trace s' = trace ?S @ take 11 (trace s')
      @ E_getEndpoint (Failed (LBError ''no instance'')) # drop 12 (trace s')"
    unfolding c(2) by simp
  with selection_failure_stops[OF c(1)] r(1)
  have "fl = Returned
          \<and> drop 12 (trace s')
              = [E_cb (Some (empty_Response\<lparr>Err := Some (LBError ''no instance'')\<rparr>))]"
    by blast
  with r(1,2,3) r(4) show ?thesis
    by (metis last.simps last_appendR list.distinct(1))
qed

subsection \<open>Without retries\<close>

text \<open>
  C5. A call for which retries are disabled is handled by one run of \<^verbatim>\<open>getEndpoint\<close>,
  which makes one selection and does not advance the chain, and then: if the selection
  has failed, by one call of the callback with a response that carries the error of
  the selection, and nothing else; if it has succeeded, by one advance of the chain,
  from the cursor as it is and with the endpoint of the call set to the selected
  address, after which the callback has got what the chain has passed to it, if
  anything, and nothing else. The handler always returns, unless the selection
  panics.
\<close>

theorem no_retry_once:
  assumes "\<not> RetryEnabled env (SourceMicroService (Inv s)) (MicroServiceName (Inv s))"
  shows "\<exists>fl s' r s1 q.
           Handle env s = Some (fl, s') \<and> getEndpoint env s = (r, s1)
           \<and> trace s1 = trace s @ q @ [E_getEndpoint r]
           \<and> selections q = 0 \<and> advances q = 0 \<and> filter reported q = []
           \<and> (case r of
                 Failed e \<Rightarrow>
                   fl = Returned
                   \<and> s' = s1\<lparr>trace := trace s1 @ [E_cb (Some (empty_Response\<lparr>Err := Some e\<rparr>))]\<rparr>
               | Selected ep \<Rightarrow>
                   fl = Returned
                   \<and> (case Next env (world s1) (HandlerIndex s) ((Inv s1)\<lparr>Endpoint := ep\<rparr>) of
                        (cr, index, w) \<Rightarrow>
                          s' = s1\<lparr>Inv := (Inv s1)\<lparr>Endpoint := ep\<rparr>, HandlerIndex := index,
                                  world := w,
                                  trace := trace s1
                                    @ E_Next (HandlerIndex s) ((Inv s1)\<lparr>Endpoint := ep\<rparr>) cr
                                    # (case cr of NotCalled \<Rightarrow> [] | Called x \<Rightarrow> [E_cb x])\<rparr>)
               | Panicked \<Rightarrow> fl = Unwound \<and> s' = s1)"
proof -
  obtain r s1 where g: "getEndpoint env s = (r, s1)" by (cases "getEndpoint env s")
  from getEndpoint_effect(1,4)[OF g] obtain q where
    q: "trace s1 = trace s @ q @ [E_getEndpoint r]" "list_all (lookup_event env (Inv s)) q"
    "HandlerIndex s1 = HandlerIndex s" by blast
  have n: "selections q = 0" "advances q = 0"
    using q(2) by (simp_all add: lookup_events_selections lookup_events_advances)
  have "\<not> reported e" if "lookup_event env (Inv s) e" for e
    using that by (cases e) simp_all
  with q(2) have nr: "filter reported q = []"
    by (auto simp: list_all_iff filter_empty_conv)
  have H: "Handle env s = Some (handleWithNoRetry env s)"
    using assms by (simp add: Handle_def)
  show ?thesis
  proof (cases r)
    case (Failed e)
    with g have "handleWithNoRetry env s = (Returned, writeErr e s1)"
      by (simp add: handleWithNoRetry_def)
    with H g q(1) n nr Failed show ?thesis
      by (simp add: writeErr_def emit_def)
  next
    case Panicked
    with g have "handleWithNoRetry env s = (Unwound, s1)"
      by (simp add: handleWithNoRetry_def)
    with H g q(1) n nr Panicked show ?thesis by simp
  next
    case (Selected ep)
    obtain cr index w where
      nx: "Next env (world s1) (HandlerIndex s) ((Inv s1)\<lparr>Endpoint := ep\<rparr>) = (cr, index, w)"
      by (cases "Next env (world s1) (HandlerIndex s) ((Inv s1)\<lparr>Endpoint := ep\<rparr>)")
    let ?s' = "s1\<lparr>Inv := (Inv s1)\<lparr>Endpoint := ep\<rparr>, HandlerIndex := index, world := w,
                 trace := trace s1 @ E_Next (HandlerIndex s) ((Inv s1)\<lparr>Endpoint := ep\<rparr>) cr
                            # (case cr of NotCalled \<Rightarrow> [] | Called x \<Rightarrow> [E_cb x])\<rparr>"
    from g Selected nx q(3) have "handleWithNoRetry env s = (Returned, ?s')"
      by (cases cr) (simp_all add: handleWithNoRetry_def Let_def emit_def)
    with H g q(1) n nr Selected nx show ?thesis by simp
  qed
qed

text \<open>
  A call that does not name its source, so that retries are disabled for it: the
  instance is picked, the chain is advanced once, from the cursor 3, and fails, and the
  callback gets the failure.
\<close>

lemma demo_no_retry_run:
  "(case getEndpoint (demo_env (\<lambda>w. Called (Some failure)) (\<lambda>w. Inr demo_instance))
           (demo_state (demo_call\<lparr>SourceMicroService := []\<rparr>)) of
      (r, s1) \<Rightarrow>
        r = Selected ''a:1'' \<and> world s1 = 0
        \<and> Inv s1 = demo_sent\<lparr>SourceMicroService := [], Endpoint := []\<rparr>
        \<and> selections (trace s1) = 1 \<and> advances (trace s1) = 0)"
  by code_simp

theorem no_retry_once_witness:
  "\<exists>s'. Handle (demo_env (\<lambda>w. Called (Some failure)) (\<lambda>w. Inr demo_instance))
           (demo_state (demo_call\<lparr>SourceMicroService := []\<rparr>)) = Some (Returned, s')
     \<and> selections (trace s') = 1 \<and> advances (trace s') = 1
     \<and> filter reported (trace s')
         = [E_Next 3 (demo_sent\<lparr>SourceMicroService := []\<rparr>) (Called (Some failure)),
            E_cb (Some failure)]
     \<and> Inv s' = demo_sent\<lparr>SourceMicroService := []\<rparr> \<and> HandlerIndex s' = 4"
proof -
  let ?E = "demo_env (\<lambda>w. Called (Some failure)) (\<lambda>w. Inr demo_instance)"
  let ?S = "demo_state (demo_call\<lparr>SourceMicroService := []\<rparr>)"
  let ?i = "demo_sent\<lparr>SourceMicroService := []\<rparr>"
  have c: "\<not> RetryEnabled ?E (SourceMicroService (Inv ?S)) (MicroServiceName (Inv ?S))"
    "trace ?S = []" "HandlerIndex ?S = 3"
    by (simp_all add: demo_env_def demo_state_def demo_call_def)
  from no_retry_once[OF c(1)] obtain fl s' r s1 q where
    n: "Handle ?E ?S = Some (fl, s')" "getEndpoint ?E ?S = (r, s1)"
    "trace s1 = trace ?S @ q @ [E_getEndpoint r]" "filter reported q = []"
    "case r of
       Failed e \<Rightarrow>
         fl = Returned
         \<and> s' = s1\<lparr>trace := trace s1 @ [E_cb (Some (empty_Response\<lparr>Err := Some e\<rparr>))]\<rparr>
     | Selected ep \<Rightarrow>
         fl = Returned
         \<and> (case Next ?E (world s1) (HandlerIndex ?S) ((Inv s1)\<lparr>Endpoint := ep\<rparr>) of
              (cr, index, w) \<Rightarrow>
                s' = s1\<lparr>Inv := (Inv s1)\<lparr>Endpoint := ep\<rparr>, HandlerIndex := index,
                        world := w,
                        trace := trace s1
                          @ E_Next (HandlerIndex ?S) ((Inv s1)\<lparr>Endpoint := ep\<rparr>) cr
                          # (case cr of NotCalled \<Rightarrow> [] | Called x \<Rightarrow> [E_cb x])\<rparr>)
     | Panicked \<Rightarrow> fl = Unwound \<and> s' = s1"
    by blast
  from demo_no_retry_run n(2) have
    d: "r = Selected ''a:1''" "world s1 = 0" "Inv s1 = ?i\<lparr>Endpoint := []\<rparr>"
    "selections (trace s1) = 1" "advances (trace s1) = 0"
    by simp_all
  have i: "(Inv s1)\<lparr>Endpoint := ''a:1''\<rparr> = ?i"
    unfolding d(3) by (simp add: demo_sent_def)
  have nx: "Next ?E 0 3 ?i = (Called (Some failure), 4, 1)"
    by (simp add: demo_env_def)
  from n(5) have fl: "fl = Returned"
    and s': "s' = s1\<lparr>Inv := ?i, HandlerIndex := 4, world := 1,
                   trace := trace s1 @ [E_Next 3 ?i (Called (Some failure)), E_cb (Some failure)]\<rparr>"
    unfolding d(1) selection.case i d(2) c(3) nx by simp_all
  have "filter reported (trace s1) = []"
    using n(3,4) c(2) by simp
  with n(1) fl s' d(4,5) show ?thesis
    by (simp add: selections_append advances_append)
qed

subsection \<open>Selection\<close>

lemma getEndpoint_nil_strategyFun:
  assumes "fst (GetStrategyPlugin env (strategy_name env (Inv s))) = None"
  shows "fst (getEndpoint env s) = Panicked"
    and "\<forall>src dst p sessionID fs tags.
           E_BuildStrategy src dst p sessionID fs tags \<notin> set (trace (snd (getEndpoint env s)))
           \<or> E_BuildStrategy src dst p sessionID fs tags \<in> set (trace s)"
proof -
  obtain f s1 where 1: "getEndpoint_strategy env s = (f, s1)"
    by (cases "getEndpoint_strategy env s")
  from getEndpoint_strategy_effect(1,3)[OF 1] assms have f: "f = None"
    and t: "trace s1 = trace s @ E_GetStrategyPlugin (strategy_name env (Inv s)) #
           (case snd (GetStrategyPlugin env (strategy_name env (Inv s))) of
              None \<Rightarrow> []
            | Some e \<Rightarrow> [E_Errorf (Some e)
                (LBError (''Get strategy ['' @ strategy_name env (Inv s) @ ''] failed.''))])"
    by simp_all
  obtain s2 where 2: "getEndpoint_pick env None s1 = (Nil_strategyFun, s2)" "trace s2 = trace s1"
    by (simp add: getEndpoint_pick_def Let_def)
  from 1 2 f show "fst (getEndpoint env s) = Panicked"
    by (simp add: getEndpoint_def)
  from 1 2 f t show "\<forall>src dst p sessionID fs tags.
           E_BuildStrategy src dst p sessionID fs tags \<notin> set (trace (snd (getEndpoint env s)))
           \<or> E_BuildStrategy src dst p sessionID fs tags \<in> set (trace s)"
    by (auto simp: getEndpoint_def split: option.splits)
qed

text \<open>
  C2 fails on the code. A call names a strategy that the registry does not know, and
  the registry returns \<^verbatim>\<open>(nil, err)\<close>: the error is logged, and then the call of the
  \<^verbatim>\<open>nil\<close> function \<^verbatim>\<open>strategyFun\<close> panics. The selection returns neither an error nor an
  endpoint, \<^verbatim>\<open>BuildStrategy\<close> is not reached, and the handler, with or without
  retries, is unwound before it calls the callback.
\<close>

theorem unknown_strategy_panics:
  "getEndpoint (demo_env (\<lambda>w. Called (Some success)) (\<lambda>w. Inr demo_instance))
     (demo_state (demo_call\<lparr>Strategy := ''WeightedResponse''\<rparr>))
   = (Panicked,
      demo_state (demo_call\<lparr>Strategy := ''WeightedResponse'', Filters := [''zoneaware'']\<rparr>)
        \<lparr>trace :=
           [E_GetStrategyPlugin ''WeightedResponse'',
            E_Errorf (Some (ErrorString ''unknown strategy''))
              (LBError ''Get strategy [WeightedResponse] failed.''),
            E_getEndpoint Panicked]\<rparr>)
   \<and> map_option (\<lambda>(fl, s'). (fl, trace s'))
       (Handle (demo_env (\<lambda>w. Called (Some success)) (\<lambda>w. Inr demo_instance))
          (demo_state (demo_call\<lparr>Strategy := ''WeightedResponse''\<rparr>)))
     = Some (Unwound,
         [E_GetStrategyPlugin ''WeightedResponse'',
          E_Errorf (Some (ErrorString ''unknown strategy''))
            (LBError ''Get strategy [WeightedResponse] failed.''),
          E_getEndpoint Panicked])
   \<and> map_option (\<lambda>(fl, s'). (fl, trace s'))
       (Handle (demo_env (\<lambda>w. Called (Some success)) (\<lambda>w. Inr demo_instance))
          (demo_state (demo_call\<lparr>Strategy := ''WeightedResponse'', SourceMicroService := []\<rparr>)))
     = Some (Unwound,
         [E_GetStrategyPlugin ''WeightedResponse'',
          E_Errorf (Some (ErrorString ''unknown strategy''))
            (LBError ''Get strategy [WeightedResponse] failed.''),
          E_getEndpoint Panicked])"
  by code_simp

lemma getEndpoint_protocol_resolves:
  "Protocol (Inv (getEndpoint_protocol env ins s)) = resolve_protocol env (Inv s) ins"
  "MicroServiceName (Inv (getEndpoint_protocol env ins s)) = MicroServiceName (Inv s)"
  by (auto simp: getEndpoint_protocol_def resolve_protocol_def Let_def split: list.splits)

lemma Sprintf_v_plain:
  "CHR ''%'' \<notin> set pre \<Longrightarrow> Sprintf_v (pre @ ''%v'') [a] = Some (pre @ a)"
  by (induction pre) auto

lemma sublist_Join: "x \<in> set xs \<Longrightarrow> sublist x (Join xs sep)"
proof (induction xs sep rule: Join.induct)
  case (3 x' y ys sep)
  show ?case
  proof (cases "x = x'")
    case True
    then show ?thesis by simp
  next
    case False
    with 3 have "sublist x (Join (y # ys) sep)" by simp
    then obtain ps ss where "Join (y # ys) sep = ps @ x @ ss" by (auto simp: sublist_def)
    then have "Join (x' # y # ys) sep = (x' @ sep @ ps) @ x @ ss" by simp
    then show ?thesis unfolding sublist_def by blast
  qed
qed simp_all

lemma sublist_Sprint_map:
  assumes "(k, v) \<in> set m"
  shows "sublist k (Sprint_map m)"
proof -
  let ?xs = "map (\<lambda>(k, v). k @ '':'' @ v) (sort_key fst m)"
  have "k @ '':'' @ v \<in> set ?xs" using assms by force
  from sublist_Join[OF this, of "'' ''"] obtain ps ss where
    "Join ?xs '' '' = ps @ (k @ '':'' @ v) @ ss" by (auto simp: sublist_def)
  then have "Sprint_map m = (''map['' @ ps) @ k @ ('':'' @ v @ ss @ '']'')"
    by (simp add: Sprint_map_def)
  then show ?thesis unfolding sublist_def by blast
qed

lemma getEndpoint_picked:
  assumes "getEndpoint_strategy env s = (f, s1)" "getEndpoint_pick env f s1 = (Instance ins, s2)"
  shows "fst (getEndpoint env s) = fst (getEndpoint_lookup env ins s2)"
    and "Protocol (Inv s2) = Protocol (Inv s)"
    and "MicroServiceName (Inv s2) = MicroServiceName (Inv s)"
  using assms getEndpoint_strategy_effect(2)[OF assms(1)] getEndpoint_pick_effect(1)[OF assms(2)]
  by (simp_all add: getEndpoint_def split: prod.splits)

lemma resolve_protocol_cong:
  "Protocol i = Protocol i' \<Longrightarrow> MicroServiceName i = MicroServiceName i' \<Longrightarrow>
   resolve_protocol env i ins = resolve_protocol env i' ins"
  by (simp add: resolve_protocol_def)

text \<open>
  C6, amended. Let the strategy pick the instance \<open>ins\<close>, and let \<open>p\<close> be the protocol
  resolved for the call. If \<open>ins\<close> has no endpoint for \<open>p\<close>, the selection fails with an
  \<open>LBError\<close>; when neither \<open>p\<close> nor the name of the service holds a \<^verbatim>\<open>%\<close>, its message
  is \<^verbatim>\<open>No available instance support [p] protocol, msName: service map[...]\<close>, which
  names \<open>p\<close>, the service and every protocol of \<open>ins\<close>. If the map of \<open>ins\<close> is not
  empty, the call requests no protocol, nothing is configured for the service, and the
  default protocol of \<open>ins\<close> is empty or a key of the map, the selection returns the
  endpoint of \<open>ins\<close> for \<open>p\<close>.
\<close>

theorem protocol_lookup:
  assumes "getEndpoint_strategy env s = (f, s1)"
    and "getEndpoint_pick env f s1 = (Instance ins, s2)"
  shows "(map_of (EndpointsMap ins) (resolve_protocol env (Inv s) ins) = None \<longrightarrow>
            (\<exists>msg. fst (getEndpoint env s) = Failed (LBError msg)
               \<and> (Sprintf_fmt env \<and> CHR ''%'' \<notin> set (resolve_protocol env (Inv s) ins)
                    \<and> CHR ''%'' \<notin> set (MicroServiceName (Inv s)) \<longrightarrow>
                  msg = ''No available instance support ['' @ resolve_protocol env (Inv s) ins
                          @ ''] protocol, msName: '' @ MicroServiceName (Inv s) @ '' ''
                          @ Sprint_map (EndpointsMap ins)
                  \<and> (\<forall>(k, v)\<in>set (EndpointsMap ins). sublist k msg))))
         \<and> (EndpointsMap ins \<noteq> [] \<and> Protocol (Inv s) = []
              \<and> archaius env (''cse.references.'' @ MicroServiceName (Inv s) @ ''.transport'') = None
              \<and> (DefaultProtocol ins = [] \<or> DefaultProtocol ins \<in> fst ` set (EndpointsMap ins))
            \<longrightarrow> (\<exists>ep. fst (getEndpoint env s) = Selected ep
                   \<and> (resolve_protocol env (Inv s) ins, ep) \<in> set (EndpointsMap ins)))"
proof -
  let ?p = "resolve_protocol env (Inv s) ins"
  let ?ms = "MicroServiceName (Inv s)"
  let ?s3 = "getEndpoint_protocol env ins s2"
  note pk = getEndpoint_picked[OF assms]
  have p3: "Protocol (Inv ?s3) = ?p" "MicroServiceName (Inv ?s3) = ?ms"
    using getEndpoint_protocol_resolves[of env ins s2] pk(2,3)
      resolve_protocol_cong[of "Inv s2" "Inv s" env ins]
    by simp_all
  have A: "\<exists>msg. fst (getEndpoint env s) = Failed (LBError msg)
               \<and> (Sprintf_fmt env \<and> CHR ''%'' \<notin> set ?p \<and> CHR ''%'' \<notin> set ?ms \<longrightarrow>
                  msg = ''No available instance support ['' @ ?p
                          @ ''] protocol, msName: '' @ ?ms @ '' ''
                          @ Sprint_map (EndpointsMap ins)
                  \<and> (\<forall>(k, v)\<in>set (EndpointsMap ins). sublist k msg))"
    if none: "map_of (EndpointsMap ins) ?p = None"
  proof -
    define pre where
      "pre = ''No available instance support ['' @ ?p @ ''] protocol, msName: '' @ ?ms @ '' ''"
    define msg where "msg = Sprintf env (pre @ ''%v'') (EndpointsMap ins)"
    have fmt: "''No available instance support ['' @ ?p @ ''] protocol, msName: '' @ ?ms
                 @ '' %v'' = pre @ ''%v''"
      by (simp add: pre_def)
    have out: "pre @ Sprint_map (EndpointsMap ins)
                 = ''No available instance support ['' @ ?p @ ''] protocol, msName: '' @ ?ms
                     @ '' '' @ Sprint_map (EndpointsMap ins)"
      by (simp add: pre_def)
    have r: "fst (getEndpoint env s) = Failed (LBError msg)"
      using pk(1) none p3 unfolding msg_def fmt[symmetric]
      by (simp add: getEndpoint_lookup_def Let_def)
    have m: "msg = pre @ Sprint_map (EndpointsMap ins)
              \<and> (\<forall>(k, v)\<in>set (EndpointsMap ins). sublist k msg)"
      if h: "Sprintf_fmt env" "CHR ''%'' \<notin> set ?p" "CHR ''%'' \<notin> set ?ms"
    proof -
      have "CHR ''%'' \<notin> set pre" using h(2,3) by (simp add: pre_def)
      from Sprintf_v_plain[OF this, of "Sprint_map (EndpointsMap ins)"] h(1)
      have e: "msg = pre @ Sprint_map (EndpointsMap ins)"
        unfolding Sprintf_fmt_def msg_def by blast
      have "sublist k msg" if "(k, v) \<in> set (EndpointsMap ins)" for k v
      proof -
        from sublist_Sprint_map[OF that] obtain ps ss where
          "Sprint_map (EndpointsMap ins) = ps @ k @ ss" by (auto simp: sublist_def)
        with e have "msg = (pre @ ps) @ k @ ss" by simp
        then show ?thesis unfolding sublist_def by blast
      qed
      with e show ?thesis by blast
    qed
    show ?thesis
    proof (intro exI[of _ msg] conjI impI)
      show "fst (getEndpoint env s) = Failed (LBError msg)" by (rule r)
    next
      assume "Sprintf_fmt env \<and> CHR ''%'' \<notin> set ?p \<and> CHR ''%'' \<notin> set ?ms"
      with m show "msg = ''No available instance support ['' @ ?p
                          @ ''] protocol, msName: '' @ ?ms @ '' ''
                          @ Sprint_map (EndpointsMap ins)"
        unfolding out[symmetric] by blast
    next
      assume "Sprintf_fmt env \<and> CHR ''%'' \<notin> set ?p \<and> CHR ''%'' \<notin> set ?ms"
      with m show "\<forall>(k, v)\<in>set (EndpointsMap ins). sublist k msg" by blast
    qed
  qed
  have B: "\<exists>ep. fst (getEndpoint env s) = Selected ep \<and> (?p, ep) \<in> set (EndpointsMap ins)"
    if h: "EndpointsMap ins \<noteq> []" "Protocol (Inv s) = []"
      "archaius env (''cse.references.'' @ ?ms @ ''.transport'') = None"
      "DefaultProtocol ins = [] \<or> DefaultProtocol ins \<in> fst ` set (EndpointsMap ins)"
  proof -
    have "?p \<in> fst ` set (EndpointsMap ins)"
      using h by (cases "EndpointsMap ins") (auto simp: resolve_protocol_def GetString_def Let_def)
    then obtain ep where ep: "map_of (EndpointsMap ins) ?p = Some ep"
      by (metis domD dom_map_of_conv_image_fst)
    then have "fst (getEndpoint env s) = Selected ep"
      using pk(1) p3 by (simp add: getEndpoint_lookup_def Let_def)
    with ep show ?thesis by (auto dest: map_of_SomeD)
  qed
  from A B show ?thesis by blast
qed

lemma demo_Sprintf_fmt: "Sprintf_fmt (demo_env chain pick)"
  by (simp add: Sprintf_fmt_def demo_env_def)

lemma demo_lookup_run:
  "fst (getEndpoint_pick (demo_env (\<lambda>w. NotCalled) (\<lambda>w. Inr demo_instance))
          (fst (getEndpoint_strategy (demo_env (\<lambda>w. NotCalled) (\<lambda>w. Inr demo_instance))
                  (demo_state (demo_call\<lparr>Protocol := ''rest''\<rparr>))))
          (snd (getEndpoint_strategy (demo_env (\<lambda>w. NotCalled) (\<lambda>w. Inr demo_instance))
                  (demo_state (demo_call\<lparr>Protocol := ''rest''\<rparr>)))))
     = Instance demo_instance
   \<and> fst (getEndpoint_pick (demo_env (\<lambda>w. NotCalled) (\<lambda>w. Inr demo_instance))
          (fst (getEndpoint_strategy (demo_env (\<lambda>w. NotCalled) (\<lambda>w. Inr demo_instance))
                  (demo_state demo_call)))
          (snd (getEndpoint_strategy (demo_env (\<lambda>w. NotCalled) (\<lambda>w. Inr demo_instance))
                  (demo_state demo_call))))
     = Instance demo_instance
   \<and> resolve_protocol (demo_env (\<lambda>w. NotCalled) (\<lambda>w. Inr demo_instance))
        (demo_call\<lparr>Protocol := ''rest''\<rparr>) demo_instance = ''rest''
   \<and> resolve_protocol (demo_env (\<lambda>w. NotCalled) (\<lambda>w. Inr demo_instance))
        demo_call demo_instance = ''http''
   \<and> map_of (EndpointsMap demo_instance) ''rest'' = None
   \<and> map_of (EndpointsMap demo_instance) ''http'' = Some ''a:1''
   \<and> Sprint_map (EndpointsMap demo_instance) = ''map[grpc:b:2 http:a:1]''"
  by code_simp

theorem protocol_lookup_witness:
  "fst (getEndpoint (demo_env (\<lambda>w. NotCalled) (\<lambda>w. Inr demo_instance))
          (demo_state (demo_call\<lparr>Protocol := ''rest''\<rparr>)))
     = Failed (LBError
         ''No available instance support [rest] protocol, msName: server map[grpc:b:2 http:a:1]'')
   \<and> fst (getEndpoint (demo_env (\<lambda>w. NotCalled) (\<lambda>w. Inr demo_instance))
          (demo_state demo_call))
     = Selected ''a:1''"
proof -
  let ?E = "demo_env (\<lambda>w. NotCalled) (\<lambda>w. Inr demo_instance)"
  let ?A = "demo_state (demo_call\<lparr>Protocol := ''rest''\<rparr>)"
  let ?B = "demo_state demo_call"
  note run = demo_lookup_run
  have iA: "Inv ?A = demo_call\<lparr>Protocol := ''rest''\<rparr>" and iB: "Inv ?B = demo_call"
    by (simp_all add: demo_state_def)
  have pA: "getEndpoint_pick ?E (fst (getEndpoint_strategy ?E ?A)) (snd (getEndpoint_strategy ?E ?A))
      = (Instance demo_instance,
         snd (getEndpoint_pick ?E (fst (getEndpoint_strategy ?E ?A)) (snd (getEndpoint_strategy ?E ?A))))"
    using run by (metis prod.collapse)
  have pB: "getEndpoint_pick ?E (fst (getEndpoint_strategy ?E ?B)) (snd (getEndpoint_strategy ?E ?B))
      = (Instance demo_instance,
         snd (getEndpoint_pick ?E (fst (getEndpoint_strategy ?E ?B)) (snd (getEndpoint_strategy ?E ?B))))"
    using run by (metis prod.collapse)
  have c: "CHR ''%'' \<notin> set ''rest''" "CHR ''%'' \<notin> set (MicroServiceName demo_call)"
    "MicroServiceName (demo_call\<lparr>Protocol := ''rest''\<rparr>) = ''server''"
    "EndpointsMap demo_instance \<noteq> []" "Protocol demo_call = []"
    "archaius ?E (''cse.references.'' @ MicroServiceName demo_call @ ''.transport'') = None"
    "DefaultProtocol demo_instance = []"
    by (simp_all add: demo_call_def demo_instance_def demo_env_def)
  from protocol_lookup[OF prod.collapse[symmetric] pA] run c demo_Sprintf_fmt[of "\<lambda>w. NotCalled" "\<lambda>w. Inr demo_instance"]
  have A: "fst (getEndpoint ?E ?A) = Failed (LBError
         ''No available instance support [rest] protocol, msName: server map[grpc:b:2 http:a:1]'')"
    unfolding iA by (auto simp: demo_call_def)
  from protocol_lookup[OF prod.collapse[symmetric] pB] run c
  have B: "fst (getEndpoint ?E ?B) = Selected ''a:1''"
    unfolding iB by (auto dest: map_of_is_SomeI[rotated] simp: demo_instance_def)
  from A B show ?thesis by simp
qed

text \<open>
  C6 as it is stated fails for an instance whose default protocol is not a key of its
  map: the map is not empty, the call requests no protocol, nothing is configured, and
  the selection fails.
\<close>

theorem default_protocol_without_endpoint:
  "EndpointsMap (demo_instance\<lparr>DefaultProtocol := ''rest''\<rparr>) \<noteq> []
   \<and> Protocol (Inv (demo_state demo_call)) = []
   \<and> archaius (demo_env (\<lambda>w. NotCalled) (\<lambda>w. Inr (demo_instance\<lparr>DefaultProtocol := ''rest''\<rparr>)))
       ''cse.references.server.transport'' = None
   \<and> fst (getEndpoint
            (demo_env (\<lambda>w. NotCalled) (\<lambda>w. Inr (demo_instance\<lparr>DefaultProtocol := ''rest''\<rparr>)))
            (demo_state demo_call))
     = Failed (LBError
         ''No available instance support [rest] protocol, msName: server map[grpc:b:2 http:a:1]'')"
  by code_simp

subsection \<open>What a call keeps from one round to the next\<close>













end
